theory Spec2Isabelle
  imports Main
begin

section \<open>Bytes, strings and the Python built-ins the command node uses\<close>

text \<open>
  A Python \<^verbatim>\<open>bytes\<close> value is a list of characters (one \<^typ>\<open>char\<close> per byte); a
  Python \<^verbatim>\<open>str\<close> is modelled the same way, so \<^verbatim>\<open>str.encode()\<close> is the identity on
  the ASCII strings used here.
\<close>

type_synonym bytes = string

definition LF :: char where
  "LF = CHR 0x0A"

definition CR :: char where
  "CR = CHR 0x0D"

text \<open>
  \<^verbatim>\<open>bytes.splitlines()\<close> (keepends defaults to false): the input is cut at every
  \<^verbatim>\<open>\n\<close>, \<^verbatim>\<open>\r\<close> and \<^verbatim>\<open>\r\n\<close>; the terminators are dropped; a last line
  without terminator is kept when it is not empty. The first argument of
  \<open>splitlines_from\<close> is the line collected so far.
\<close>

fun splitlines_from :: "bytes \<Rightarrow> bytes \<Rightarrow> bytes list" where
  "splitlines_from cur [] = (if cur = [] then [] else [cur])"
| "splitlines_from cur [c] =
     (if c = LF \<or> c = CR then [cur] else [cur @ [c]])"
| "splitlines_from cur (c # d # cs) =
     (if c = CR \<and> d = LF then cur # splitlines_from [] cs
      else if c = LF \<or> c = CR then cur # splitlines_from [] (d # cs)
      else splitlines_from (cur @ [c]) (d # cs))"

definition splitlines :: "bytes \<Rightarrow> bytes list" where
  "splitlines bs = splitlines_from [] bs"

text \<open>\<^verbatim>\<open>sep.join(xs)\<close> on strings.\<close>

fun str_join :: "string \<Rightarrow> string list \<Rightarrow> string" where
  "str_join sep [] = []"
| "str_join sep [x] = x"
| "str_join sep (x # y # ys) = x @ sep @ str_join sep (y # ys)"

text \<open>
  The argument values a caller passes: strings, integers, booleans and \<^verbatim>\<open>None\<close>,
  with Python's \<^verbatim>\<open>str()\<close> on them.
\<close>

datatype pyval = PyStr string | PyInt int | PyBool bool | PyNone

definition digit_char :: "nat \<Rightarrow> char" where
  "digit_char d = ''0123456789'' ! (d mod 10)"

function digits :: "nat \<Rightarrow> string" where
  "digits n = (if n < 10 then [digit_char n] else digits (n div 10) @ [digit_char (n mod 10)])"
  by pat_completeness auto
termination
  by (relation "measure id") auto

fun py_str :: "pyval \<Rightarrow> string" where
  "py_str (PyStr s) = s"
| "py_str (PyInt i) = (if i < 0 then ''-'' @ digits (nat (- i)) else digits (nat i))"
| "py_str (PyBool b) = (if b then ''True'' else ''False'')"
| "py_str PyNone = ''None''"

section \<open>The data model of a command node\<close>

datatype PipeType = PipeOUT | PipeERR | PipeALL | PipeIN

text \<open>
  \<open>pipe_in\<close> of a node is \<^verbatim>\<open>None\<close>, a byte payload (set by \<^verbatim>\<open>__ror__\<close>) or a
  reference to another node. Nodes live in a store and are referred to by their index,
  because composition mutates the right-hand node through a shared reference.
\<close>

datatype pipe_source = NoPipe | Payload bytes | Upstream nat

text \<open>
  A \<^verbatim>\<open>threading.Thread\<close>: it can be started once; it is alive from \<^verbatim>\<open>start()\<close>
  until its target returns.
\<close>

datatype thread_state = NotStarted | Alive | Stopped

text \<open>
  The handle \<^verbatim>\<open>subprocess.Popen\<close> returns: the number of the spawn it came from,
  the pid, the cached \<^verbatim>\<open>returncode\<close> (set by \<^verbatim>\<open>poll()\<close> once the process has
  exited) and what has been done to its \<^verbatim>\<open>stdin\<close> stream so far.
\<close>

datatype stdin_op = Write bytes | Close

record popen =
  proc_no :: nat
  pid :: nat
  returncode :: "int option"
  stdin_log :: "stdin_op list"

record CLITool =
  name :: string
  process :: "popen option"
  pipe_in :: pipe_source
  args :: "string list"
  thread :: thread_state
  u_stdout_thread :: thread_state
  u_stderr_thread :: thread_state
  u_stderr :: "bytes option"
  u_stdout :: "bytes option"
  u_all :: "bytes option"
  u_stderr_buffer :: bytes
  u_stdout_buffer :: bytes
  u_all_buffer :: bytes
  u_all_queue :: "bytes list"
  u_stdout_queue :: "bytes list"
  u_stderr_queue :: "bytes list"
  u_stdin_queue :: "bytes list"
  pipe_in_type :: PipeType
  concurrent :: bool
  has_run :: bool

text \<open>\<^verbatim>\<open>CLITool.__init__\<close>. A leading underscore of the source is written \<open>u_\<close>.\<close>

definition init_CLITool :: "string \<Rightarrow> CLITool" where
  "init_CLITool nm =
     \<lparr>name = nm, process = None, pipe_in = NoPipe, args = [],
      thread = NotStarted, u_stdout_thread = NotStarted, u_stderr_thread = NotStarted,
      u_stderr = None, u_stdout = None, u_all = None,
      u_stderr_buffer = [], u_stdout_buffer = [], u_all_buffer = [],
      u_all_queue = [], u_stdout_queue = [], u_stderr_queue = [], u_stdin_queue = [],
      pipe_in_type = PipeOUT, concurrent = False, has_run = False\<rparr>"

subsection \<open>The operating system\<close>

text \<open>
  What the program cannot decide is a parameter. For the \<open>k\<close>-th process spawned,
  \<open>env k\<close> gives its pid, the chunks the two drainer threads discover, in the order
  in which the threads handle them (one entry per execution of the body of a reader's
  \<^verbatim>\<open>for data in ...readlines()\<close> loop), and the exit status, \<open>None\<close> for a process
  that never exits. The chunks are what the readers discover, which can be less than
  what the process wrote: a reader whose first \<^verbatim>\<open>poll()\<close> finds the process exited
  reads nothing.
\<close>

datatype stream = StdOut | StdErr

record proc_behaviour =
  os_pid :: nat
  drained :: "(stream \<times> bytes) list"
  exit_status :: "int option"

record popen_call =
  command :: string
  shell :: bool

datatype signal = SIGINT | SIGKILL | SIGTERM

record shell_state =
  heap :: "CLITool list"
  spawned :: "popen_call list"
  signals :: "(nat \<times> signal) list"

text \<open>
  \<open>BadRef\<close> is not a Python exception: it reports a node index outside the store, which
  a Python reference cannot be.
\<close>

datatype error = TypeError string | RuntimeError string | StopIteration | BadRef nat

datatype 'a outcome = Returns 'a | Raises error shell_state | Hangs shell_state

definition upd :: "nat \<Rightarrow> (CLITool \<Rightarrow> CLITool) \<Rightarrow> shell_state \<Rightarrow> shell_state" where
  "upd i f s = s\<lparr>heap := (heap s)[i := f (heap s ! i)]\<rparr>"

text \<open>\<^verbatim>\<open>Shell.__getattribute__\<close>, \<^verbatim>\<open>__getitem__\<close>, \<^verbatim>\<open>__getattr__\<close>: a new node.\<close>

definition Shell_getattr :: "string \<Rightarrow> shell_state \<Rightarrow> nat \<times> shell_state" where
  "Shell_getattr nm s = (length (heap s), s\<lparr>heap := heap s @ [init_CLITool nm]\<rparr>)"

definition empty_state :: shell_state where
  "empty_state = \<lparr>heap = [], spawned = [], signals = []\<rparr>"

section \<open>Construction and composition\<close>

text \<open>\<^verbatim>\<open>CLITool.__call__\<close>: the argument list is the name and \<^verbatim>\<open>str\<close> of each argument.\<close>

definition dunder_call :: "nat \<Rightarrow> pyval list \<Rightarrow> shell_state \<Rightarrow> nat \<times> shell_state" where
  "dunder_call self as s =
     (self, upd self (\<lambda>n. n\<lparr>args := name n # map py_str as\<rparr>) s)"

text \<open>\<^verbatim>\<open>CLITool.__invert__\<close>.\<close>

definition dunder_invert :: "nat \<Rightarrow> shell_state \<Rightarrow> nat \<times> shell_state" where
  "dunder_invert self s = (self, upd self (\<lambda>n. n\<lparr>concurrent := True\<rparr>) s)"

text \<open>
  The right operand of a pipe operator is any Python object: a command node of the store
  or another value.
\<close>

datatype pyobj = Tool nat | Value pyval

text \<open>\<^verbatim>\<open>CLITool.__or__\<close>, \<^verbatim>\<open>__matmul__\<close> and \<^verbatim>\<open>__mod__\<close>.\<close>

definition dunder_or :: "nat \<Rightarrow> pyobj \<Rightarrow> shell_state \<Rightarrow> (nat \<times> shell_state) outcome" where
  "dunder_or self other s =
     (case other of
        Tool j \<Rightarrow>
          if j < length (heap s)
          then Returns (j, upd j (\<lambda>n. n\<lparr>pipe_in := Upstream self\<rparr>) s)
          else Raises (BadRef j) s
      | Value v \<Rightarrow>
          Raises (TypeError
            ''Cant stdout pipe Shell command into type other than another shell command'') s)"

definition dunder_matmul :: "nat \<Rightarrow> pyobj \<Rightarrow> shell_state \<Rightarrow> (nat \<times> shell_state) outcome" where
  "dunder_matmul self other s =
     (case other of
        Tool j \<Rightarrow>
          if j < length (heap s)
          then Returns (j, upd j (\<lambda>n. n\<lparr>pipe_in := Upstream self, pipe_in_type := PipeERR\<rparr>) s)
          else Raises (BadRef j) s
      | Value v \<Rightarrow>
          Raises (TypeError
            ''Cant stderr pipe Shell command into type other than another shell command'') s)"

definition dunder_mod :: "nat \<Rightarrow> pyobj \<Rightarrow> shell_state \<Rightarrow> (nat \<times> shell_state) outcome" where
  "dunder_mod self other s =
     (case other of
        Tool j \<Rightarrow>
          if j < length (heap s)
          then Returns (j, upd j (\<lambda>n. n\<lparr>pipe_in := Upstream self, pipe_in_type := PipeALL\<rparr>) s)
          else Raises (BadRef j) s
      | Value v \<Rightarrow>
          Raises (TypeError
            ''Cant stderr pipe Shell command into type other than another shell command'') s)"

text \<open>\<^verbatim>\<open>CLITool.__ror__\<close>: the left operand is a plain value.\<close>

definition dunder_ror :: "nat \<Rightarrow> pyval \<Rightarrow> shell_state \<Rightarrow> nat \<times> shell_state" where
  "dunder_ror self other s =
     (self, upd self (\<lambda>n. n\<lparr>pipe_in := Payload (py_str other)\<rparr>) s)"

section \<open>Lifecycle queries, termination and iteration\<close>

text \<open>
  \<open>now p\<close> is what the operating system reports for pid \<open>p\<close> at the moment of the call:
  \<open>None\<close> while the process is alive, its exit status once it has exited.
  \<^verbatim>\<open>Popen.poll()\<close> asks only while no return code is cached, and caches the answer.
\<close>

definition poll :: "(nat \<Rightarrow> int option) \<Rightarrow> popen \<Rightarrow> int option \<times> popen" where
  "poll now p =
     (case returncode p of
        Some rc \<Rightarrow> (Some rc, p)
      | None \<Rightarrow> (now (pid p), p\<lparr>returncode := now (pid p)\<rparr>))"

text \<open>
  The properties \<^verbatim>\<open>running\<close>, \<^verbatim>\<open>stream_empty\<close>, \<^verbatim>\<open>return_code\<close> and \<^verbatim>\<open>pid\<close>
  (written \<open>pid_prop\<close>, \<open>pid\<close> being the field of the handle). \<^verbatim>\<open>running\<close> polls,
  so it returns the state with the cached return code.
\<close>

definition running :: "(nat \<Rightarrow> int option) \<Rightarrow> nat \<Rightarrow> shell_state \<Rightarrow> bool \<times> shell_state" where
  "running now i s =
     (case process (heap s ! i) of
        None \<Rightarrow> (False, s)
      | Some p \<Rightarrow>
          (case poll now p of
             (r, p') \<Rightarrow> (r = None, upd i (\<lambda>n. n\<lparr>process := Some p'\<rparr>) s)))"

definition stream_empty :: "nat \<Rightarrow> shell_state \<Rightarrow> bool" where
  "stream_empty i s =
     (u_stdout_queue (heap s ! i) = [] \<and> u_stderr_queue (heap s ! i) = [])"


definition pid_prop :: "nat \<Rightarrow> shell_state \<Rightarrow> nat option" where
  "pid_prop i s = (case process (heap s ! i) of Some p \<Rightarrow> Some (pid p) | None \<Rightarrow> None)"

definition pid_repr :: "nat option \<Rightarrow> string" where
  "pid_repr p = py_str (case p of None \<Rightarrow> PyNone | Some n \<Rightarrow> PyInt (int n))"

text \<open>
  \<^verbatim>\<open>CLITool.kill\<close>. \<^verbatim>\<open>os.kill\<close> appends to the log of delivered signals. A running
  node has a process, so \<^verbatim>\<open>os.kill(None, ...)\<close> is the \<open>TypeError\<close> Python would raise
  on a branch that is never taken.
\<close>

definition kill :: "(nat \<Rightarrow> int option) \<Rightarrow> nat \<Rightarrow> shell_state \<Rightarrow> shell_state outcome" where
  "kill now i s =
     (case running now i s of
        (r, s1) \<Rightarrow>
          if r then
            (case pid_prop i s1 of
               Some p \<Rightarrow> Returns (s1\<lparr>signals := signals s1 @ [(p, SIGTERM)]\<rparr>)
             | None \<Rightarrow> Raises (TypeError ''an integer is required'') s1)
          else
            Raises (RuntimeError
              (''Tried to kill process that doesnt exist with pid:('' @ pid_repr (pid_prop i s1)
                 @ '').'')) s1)"

text \<open>
  \<^verbatim>\<open>CLITool.next_stream_line\<close> and \<^verbatim>\<open>CLITool.__next__\<close>, on the queues as they are
  at the call: \<^verbatim>\<open>Queue.get\<close> removes the first item, and is called on a queue that is
  not empty only.
\<close>

definition next_stream_line ::
  "nat \<Rightarrow> shell_state \<Rightarrow> (bytes option \<times> bytes option) \<times> shell_state" where
  "next_stream_line i s =
     (let (out, s1) =
            (case u_stdout_queue (heap s ! i) of
               [] \<Rightarrow> (None, s)
             | x # xs \<Rightarrow> (Some x, upd i (\<lambda>n. n\<lparr>u_stdout_queue := xs\<rparr>) s));
          (err, s2) =
            (case u_stderr_queue (heap s1 ! i) of
               [] \<Rightarrow> (None, s1)
             | y # ys \<Rightarrow> (Some y, upd i (\<lambda>n. n\<lparr>u_stderr_queue := ys\<rparr>) s1))
      in ((out, err), s2))"

definition dunder_next ::
  "nat \<Rightarrow> shell_state \<Rightarrow> ((bytes option \<times> bytes option) \<times> shell_state) outcome" where
  "dunder_next i s =
     (if u_stdout_queue (heap s ! i) = [] \<and> u_stderr_queue (heap s ! i) = []
      then Raises StopIteration s
      else Returns (next_stream_line i s))"

section \<open>The execution engine\<close>

text \<open>
  \<^verbatim>\<open>subp.Popen(cmd, shell=True, stdout=PIPE, stderr=PIPE, stdin=PIPE)\<close>: the call is
  logged with its command string and its shell flag, and the handle of the next process
  of the environment is returned.
\<close>

definition Popen ::
  "(nat \<Rightarrow> proc_behaviour) \<Rightarrow> string \<Rightarrow> shell_state \<Rightarrow> popen \<times> shell_state" where
  "Popen env cmd s =
     (\<lparr>proc_no = length (spawned s), pid = os_pid (env (length (spawned s))),
       returncode = None, stdin_log = []\<rparr>,
      s\<lparr>spawned := spawned s @ [\<lparr>command = cmd, shell = True\<rparr>]\<rparr>)"

text \<open>\<^verbatim>\<open>Thread.start()\<close> raises on a thread that has been started before.\<close>

definition thread_start :: "thread_state \<Rightarrow> error + thread_state" where
  "thread_start t =
     (if t = NotStarted then Inr Alive
      else Inl (RuntimeError ''threads can only be started once''))"

text \<open>
  The bodies of the \<^verbatim>\<open>for data in ...\<close> loops of \<^verbatim>\<open>_stdout_reader\<close> and
  \<^verbatim>\<open>_stderr_reader\<close>. \<^verbatim>\<open>Queue.put\<close> appends; the queues are unbounded.
\<close>

definition u_stdout_reader_step :: "bytes \<Rightarrow> CLITool \<Rightarrow> CLITool" where
  "u_stdout_reader_step data n =
     n\<lparr>u_stdout_queue := u_stdout_queue n @ [data],
       u_stdout_buffer := u_stdout_buffer n @ data,
       u_all_queue := u_all_queue n @ [data],
       u_all_buffer := u_all_buffer n @ data\<rparr>"

definition u_stderr_reader_step :: "bytes \<Rightarrow> CLITool \<Rightarrow> CLITool" where
  "u_stderr_reader_step data n =
     n\<lparr>u_stderr_queue := u_stderr_queue n @ [data],
       u_stderr_buffer := u_stderr_buffer n @ data,
       u_all_queue := u_all_queue n @ [data],
       u_all_buffer := u_all_buffer n @ data\<rparr>"

fun drain_step :: "CLITool \<Rightarrow> stream \<times> bytes \<Rightarrow> CLITool" where
  "drain_step n (StdOut, data) = u_stdout_reader_step data n"
| "drain_step n (StdErr, data) = u_stderr_reader_step data n"

definition drainer_alive :: "CLITool \<Rightarrow> stream \<times> bytes \<Rightarrow> bool" where
  "drainer_alive n e =
     (case fst e of StdOut \<Rightarrow> u_stdout_thread n = Alive
                  | StdErr \<Rightarrow> u_stderr_thread n = Alive)"

definition join_thread :: "thread_state \<Rightarrow> thread_state" where
  "join_thread t = (if t = Alive then Stopped else t)"

text \<open>
  \<^verbatim>\<open>_kill_stream_threads\<close>: both drainers are joined when alive. The two reader loops
  run while \<^verbatim>\<open>poll()\<close> reports no exit, so the joins return only for a process that
  exits, and then \<^verbatim>\<open>poll()\<close> has cached its status. What the readers did between their
  start and the join is read by nobody before the join, so it is applied here, in the
  order the environment gives.
\<close>

definition u_kill_stream_threads ::
  "(nat \<Rightarrow> proc_behaviour) \<Rightarrow> nat \<Rightarrow> shell_state \<Rightarrow> shell_state outcome" where
  "u_kill_stream_threads env i s =
     (let self = heap s ! i in
      if u_stdout_thread self = Alive \<or> u_stderr_thread self = Alive then
        (case process self of
           None \<Rightarrow> Hangs s
         | Some p \<Rightarrow>
             (let self' = foldl drain_step self
                            (filter (drainer_alive self) (drained (env (proc_no p))))
              in case exit_status (env (proc_no p)) of
                   None \<Rightarrow> Hangs (upd i (\<lambda>n. self') s)
                 | Some rc \<Rightarrow>
                     Returns (upd i (\<lambda>n. self'
                        \<lparr>process := Some (p\<lparr>returncode := Some rc\<rparr>),
                         u_stdout_thread := join_thread (u_stdout_thread self'),
                         u_stderr_thread := join_thread (u_stderr_thread self')\<rparr>) s)))
      else Returns s)"

text \<open>
  \<^verbatim>\<open>finish\<close>. A background thread runs its whole target when it is started (see
  \<open>run\<close>), so a thread found alive is the calling thread itself, which Python refuses to
  join, or a thread that is blocked for ever. \<open>cur\<close> is the node whose background thread
  is executing, \<open>None\<close> on the main thread.
\<close>

definition finish ::
  "(nat \<Rightarrow> proc_behaviour) \<Rightarrow> nat option \<Rightarrow> nat \<Rightarrow> shell_state \<Rightarrow> shell_state outcome" where
  "finish env cur i s =
     (if thread (heap s ! i) = Alive then
        (case u_kill_stream_threads env i s of
           Returns s1 \<Rightarrow>
             if cur = Some i then Raises (RuntimeError ''cannot join current thread'') s1
             else Hangs s1
         | Raises e s1 \<Rightarrow> Raises e s1
         | Hangs s1 \<Rightarrow> Hangs s1)
      else Returns s)"

text \<open>
  The properties \<^verbatim>\<open>stdout\<close>, \<^verbatim>\<open>stderr\<close> and \<^verbatim>\<open>all\<close> (written \<open>all_prop\<close>):
  the finalised field when it is set, else \<^verbatim>\<open>finish()\<close> and then the field.
\<close>

definition cached_or_finish ::
  "(CLITool \<Rightarrow> bytes option) \<Rightarrow> (nat \<Rightarrow> proc_behaviour) \<Rightarrow> nat option \<Rightarrow> nat \<Rightarrow> shell_state
     \<Rightarrow> (bytes option \<times> shell_state) outcome" where
  "cached_or_finish field env cur i s =
     (case field (heap s ! i) of
        Some v \<Rightarrow> Returns (Some v, s)
      | None \<Rightarrow>
          (case finish env cur i s of
             Returns s1 \<Rightarrow> Returns (field (heap s1 ! i), s1)
           | Raises e s1 \<Rightarrow> Raises e s1
           | Hangs s1 \<Rightarrow> Hangs s1))"

definition stdout ::
  "(nat \<Rightarrow> proc_behaviour) \<Rightarrow> nat option \<Rightarrow> nat \<Rightarrow> shell_state
     \<Rightarrow> (bytes option \<times> shell_state) outcome" where
  "stdout = cached_or_finish u_stdout"

definition stderr ::
  "(nat \<Rightarrow> proc_behaviour) \<Rightarrow> nat option \<Rightarrow> nat \<Rightarrow> shell_state
     \<Rightarrow> (bytes option \<times> shell_state) outcome" where
  "stderr = cached_or_finish u_stderr"

definition all_prop ::
  "(nat \<Rightarrow> proc_behaviour) \<Rightarrow> nat option \<Rightarrow> nat \<Rightarrow> shell_state
     \<Rightarrow> (bytes option \<times> shell_state) outcome" where
  "all_prop = cached_or_finish u_all"

subsection \<open>The parts of \<^verbatim>\<open>_run\<close>\<close>

text \<open>Lines 58 to 62: spawn, then start the two drainers.\<close>

definition u_run_head ::
  "(nat \<Rightarrow> proc_behaviour) \<Rightarrow> nat \<Rightarrow> shell_state \<Rightarrow> shell_state outcome" where
  "u_run_head env i s =
     (case Popen env (str_join '' '' (args (heap s ! i))) s of
        (p, s1) \<Rightarrow>
          (let s2 = upd i (\<lambda>n. n\<lparr>process := Some p\<rparr>) s1 in
           case thread_start (u_stdout_thread (heap s2 ! i)) of
             Inl e \<Rightarrow> Raises e s2
           | Inr t1 \<Rightarrow>
               (let s3 = upd i (\<lambda>n. n\<lparr>u_stdout_thread := t1\<rparr>) s2 in
                case thread_start (u_stderr_thread (heap s3 ! i)) of
                  Inl e \<Rightarrow> Raises e s3
                | Inr t2 \<Rightarrow> Returns (upd i (\<lambda>n. n\<lparr>u_stderr_thread := t2\<rparr>) s3))))"

text \<open>
  Lines 69 to 74: the stream of the upstream node that the selector names. No branch
  handles \<open>PipeIN\<close>, which leaves the initial \<^verbatim>\<open>b''\<close>.
\<close>

definition read_selected ::
  "(nat \<Rightarrow> proc_behaviour) \<Rightarrow> nat option \<Rightarrow> PipeType \<Rightarrow> nat \<Rightarrow> shell_state
     \<Rightarrow> (bytes option \<times> shell_state) outcome" where
  "read_selected env cur ty j s =
     (case ty of
        PipeERR \<Rightarrow> stderr env cur j s
      | PipeOUT \<Rightarrow> stdout env cur j s
      | PipeALL \<Rightarrow> all_prop env cur j s
      | PipeIN \<Rightarrow> Returns (Some [], s))"

text \<open>Lines 78 and 79: \<^verbatim>\<open>stdin.writelines(pipe_in.splitlines())\<close>, one write per line.\<close>

definition write_stdin :: "bytes option \<Rightarrow> CLITool \<Rightarrow> CLITool" where
  "write_stdin pin n =
     (case pin of
        None \<Rightarrow> n
      | Some b \<Rightarrow>
          (case process n of
             None \<Rightarrow> n
           | Some p \<Rightarrow>
               n\<lparr>process := Some (p\<lparr>stdin_log := stdin_log p @ map Write (splitlines b)\<rparr>)\<rparr>))"

text \<open>Lines 84 to 88: the finalisation, with the conditional expressions as written.\<close>

definition finalize :: "CLITool \<Rightarrow> CLITool" where
  "finalize n =
     (let n1 = (if (case u_stdout n of
                      None \<Rightarrow> True
                    | Some v \<Rightarrow> length v < length (u_stdout_buffer n))
                then n\<lparr>u_stdout := Some (u_stdout_buffer n)\<rparr> else n);
          n2 = (if (case u_stderr n1 of
                      None \<Rightarrow> True
                    | Some v \<Rightarrow> length v < length (u_stderr_buffer n1))
                then n1\<lparr>u_stdout := Some (u_stdout_buffer n1)\<rparr> else n1)
      in n2\<lparr>u_all := Some (u_all_buffer n2)\<rparr>)"

text \<open>Lines 78 to 91: write the input, join the drainers, finalise.\<close>

definition u_run_tail ::
  "(nat \<Rightarrow> proc_behaviour) \<Rightarrow> nat \<Rightarrow> bytes option \<Rightarrow> shell_state \<Rightarrow> shell_state outcome" where
  "u_run_tail env i pin s =
     (case u_kill_stream_threads env i (upd i (write_stdin pin) s) of
        Returns s1 \<Rightarrow> Returns (upd i finalize s1)
      | Raises e s1 \<Rightarrow> Raises e s1
      | Hangs s1 \<Rightarrow> Hangs s1)"

text \<open>The busy wait of \<^verbatim>\<open>run\<close> in background mode: \<^verbatim>\<open>while self.process == None: pass\<close>.\<close>

definition wait_process :: "nat \<Rightarrow> shell_state \<Rightarrow> shell_state outcome" where
  "wait_process i s = (if process (heap s ! i) = None then Hangs s else Returns s)"

definition unrun :: "shell_state \<Rightarrow> nat" where
  "unrun s = length (filter (\<lambda>n. \<not> has_run n) (heap s))"

subsection \<open>Updates of the store keep what they do not touch\<close>

lemma filter_update_drop:
  "i < length xs \<Longrightarrow> P (xs ! i) \<Longrightarrow> \<not> P y \<Longrightarrow>
   Suc (length (filter P (xs[i := y]))) = length (filter P xs)"
proof (induction xs arbitrary: i)
  case Nil
  then show ?case by simp
next
  case (Cons x xs)
  then show ?case by (cases i) auto
qed

lemma length_heap_upd [simp]: "length (heap (upd i f s)) = length (heap s)"
  by (simp add: upd_def)

lemma heap_upd_same [simp]: "i < length (heap s) \<Longrightarrow> heap (upd i f s) ! i = f (heap s ! i)"
  by (simp add: upd_def)

lemma heap_upd_other [simp]: "i \<noteq> j \<Longrightarrow> heap (upd i f s) ! j = heap s ! j"
  by (simp add: upd_def)

lemma spawned_upd [simp]: "spawned (upd i f s) = spawned s"
  by (simp add: upd_def)

lemma signals_upd [simp]: "signals (upd i f s) = signals s"
  by (simp add: upd_def)

lemma unrun_upd_same:
  assumes "has_run (f (heap s ! i)) = has_run (heap s ! i)"
  shows "unrun (upd i f s) = unrun s"
proof -
  have "map has_run ((heap s)[i := f (heap s ! i)]) = map has_run (heap s)"
  proof (rule nth_equalityI)
    show "length (map has_run ((heap s)[i := f (heap s ! i)])) = length (map has_run (heap s))"
      by simp
  next
    fix k assume "k < length (map has_run ((heap s)[i := f (heap s ! i)]))"
    then show "map has_run ((heap s)[i := f (heap s ! i)]) ! k = map has_run (heap s) ! k"
      using assms by (cases "k = i") simp_all
  qed
  then have m: "map has_run (heap (upd i f s)) = map has_run (heap s)"
    by (simp add: upd_def)
  have u: "unrun t = length (filter Not (map has_run (heap t)))" for t
    by (simp add: unrun_def filter_map comp_def)
  show ?thesis by (simp only: u m)
qed

lemma unrun_upd_set:
  "i < length (heap s) \<Longrightarrow> \<not> has_run (heap s ! i) \<Longrightarrow> has_run (f (heap s ! i)) \<Longrightarrow>
   Suc (unrun (upd i f s)) = unrun s"
  using filter_update_drop [of i "heap s" "\<lambda>n. \<not> has_run n" "f (heap s ! i)"]
  by (simp add: unrun_def upd_def)

lemma unrun_spawned [simp]: "unrun (s\<lparr>spawned := x\<rparr>) = unrun s"
  by (simp add: unrun_def)

lemma u_run_head_unrun:
  assumes "u_run_head env i s = Returns s1"
  shows "unrun s1 = unrun s"
  using assms
  by (auto simp: u_run_head_def Popen_def Let_def unrun_upd_same split: sum.splits)

lemma u_run_head_length:
  assumes "u_run_head env i s = Returns s1"
  shows "length (heap s1) = length (heap s)"
  using assms
  by (auto simp: u_run_head_def Popen_def Let_def split: sum.splits)

subsection \<open>\<^verbatim>\<open>run\<close> and \<^verbatim>\<open>_run\<close>\<close>

text \<open>
  \<^verbatim>\<open>run\<close> calls \<^verbatim>\<open>_run\<close>, which calls \<^verbatim>\<open>run\<close> of a pipe source that has not run.
  In background mode \<^verbatim>\<open>run\<close> starts a thread with target \<^verbatim>\<open>_run\<close>; the model takes the
  schedule in which that thread executes its whole target before the caller goes on. An
  exception in the target ends the thread and does not reach the caller; a target that
  blocks for ever leaves the thread alive.
\<close>

function run ::
    "(nat \<Rightarrow> proc_behaviour) \<Rightarrow> nat option \<Rightarrow> nat \<Rightarrow> shell_state \<Rightarrow> shell_state outcome"
  and u_run ::
    "(nat \<Rightarrow> proc_behaviour) \<Rightarrow> nat option \<Rightarrow> nat \<Rightarrow> shell_state \<Rightarrow> shell_state outcome"
where
  "run env cur i s =
     (if i < length (heap s) then
        (let s1 = upd i (\<lambda>n. n\<lparr>has_run := True\<rparr>) s in
         if concurrent (heap s1 ! i) then
           (case thread_start (thread (heap s1 ! i)) of
              Inl e \<Rightarrow> Raises e s1
            | Inr t \<Rightarrow>
                (case u_run env (Some i) i (upd i (\<lambda>n. n\<lparr>thread := t\<rparr>) s1) of
                   Returns s2 \<Rightarrow> wait_process i (upd i (\<lambda>n. n\<lparr>thread := Stopped\<rparr>) s2)
                 | Raises e s2 \<Rightarrow> wait_process i (upd i (\<lambda>n. n\<lparr>thread := Stopped\<rparr>) s2)
                 | Hangs s2 \<Rightarrow> wait_process i s2))
         else
           (case u_run env cur i s1 of
              Returns s2 \<Rightarrow> finish env cur i s2
            | Raises e s2 \<Rightarrow> Raises e s2
            | Hangs s2 \<Rightarrow> Hangs s2))
      else Raises (BadRef i) s)"
| "u_run env cur i s =
     (if i < length (heap s) then
        (case u_run_head env i s of
           Returns s1 \<Rightarrow>
             (case pipe_in (heap s1 ! i) of
                Upstream j \<Rightarrow>
                  if j < length (heap s1) then
                    (case (if \<not> has_run (heap s1 ! j) then run env cur j s1 else Returns s1) of
                       Returns s2 \<Rightarrow>
                         (case read_selected env cur (pipe_in_type (heap s2 ! i)) j s2 of
                            Returns (pin, s3) \<Rightarrow> u_run_tail env i pin s3
                          | Raises e s3 \<Rightarrow> Raises e s3
                          | Hangs s3 \<Rightarrow> Hangs s3)
                     | Raises e s2 \<Rightarrow> Raises e s2
                     | Hangs s2 \<Rightarrow> Hangs s2)
                  else Raises (BadRef j) s1
              | Payload b \<Rightarrow> u_run_tail env i (Some b) s1
              | NoPipe \<Rightarrow> u_run_tail env i None s1)
         | Raises e s1 \<Rightarrow> Raises e s1
         | Hangs s1 \<Rightarrow> Hangs s1)
      else Raises (BadRef i) s)"
  by pat_completeness auto
termination
proof (relation "measure (\<lambda>x. case x of
          Inl (env, cur, i, s) \<Rightarrow>
            2 * unrun s + (if i < length (heap s) \<and> \<not> has_run (heap s ! i) then 0 else 2)
        | Inr (env, cur, i, s) \<Rightarrow> 2 * unrun s + 1)", goal_cases)
  case 1
  show ?case by simp
next
  case (2 env cur i s x xa)
  then show ?case
    using unrun_upd_set [of i s "\<lambda>n. n\<lparr>has_run := True\<rparr>"]
    by (auto simp: unrun_upd_same)
next
  case (3 env cur i s x)
  then show ?case
    using unrun_upd_set [of i s "\<lambda>n. n\<lparr>has_run := True\<rparr>"]
    by (auto simp: unrun_upd_same)
next
  case 4
  then show ?case
    by (auto simp: u_run_head_unrun u_run_head_length)
qed

declare run.simps [simp del] u_run.simps [simp del]

subsection \<open>Reading an outcome\<close>

text \<open>The state in which a call ends, whether it returns, raises or blocks.\<close>

fun state_of :: "shell_state outcome \<Rightarrow> shell_state" where
  "state_of (Returns s) = s"
| "state_of (Raises e s) = s"
| "state_of (Hangs s) = s"

fun state_of_pair :: "('a \<times> shell_state) outcome \<Rightarrow> shell_state" where
  "state_of_pair (Returns (v, s)) = s"
| "state_of_pair (Raises e s) = s"
| "state_of_pair (Hangs s) = s"

text \<open>What has been done to the stdin of the current process of a node.\<close>

definition stdin_of :: "nat \<Rightarrow> shell_state \<Rightarrow> stdin_op list" where
  "stdin_of i s = (case process (heap s ! i) of None \<Rightarrow> [] | Some p \<Rightarrow> stdin_log p)"

fun written :: "stdin_op list \<Rightarrow> bytes" where
  "written [] = []"
| "written (Write b # ops) = b @ written ops"
| "written (Close # ops) = written ops"

section \<open>Devices for reasoning about the engine\<close>

text \<open>The part of \<^verbatim>\<open>_run\<close> after the drainers are started (lines 64 to 91).\<close>

definition u_run_rest ::
  "(nat \<Rightarrow> proc_behaviour) \<Rightarrow> nat option \<Rightarrow> nat \<Rightarrow> shell_state \<Rightarrow> shell_state outcome" where
  "u_run_rest env cur i s1 =
     (case pipe_in (heap s1 ! i) of
        Upstream j \<Rightarrow>
          if j < length (heap s1) then
            (case (if \<not> has_run (heap s1 ! j) then run env cur j s1 else Returns s1) of
               Returns s2 \<Rightarrow>
                 (case read_selected env cur (pipe_in_type (heap s2 ! i)) j s2 of
                    Returns (pin, s3) \<Rightarrow> u_run_tail env i pin s3
                  | Raises e s3 \<Rightarrow> Raises e s3
                  | Hangs s3 \<Rightarrow> Hangs s3)
             | Raises e s2 \<Rightarrow> Raises e s2
             | Hangs s2 \<Rightarrow> Hangs s2)
          else Raises (BadRef j) s1
      | Payload b \<Rightarrow> u_run_tail env i (Some b) s1
      | NoPipe \<Rightarrow> u_run_tail env i None s1)"

text \<open>The handle and the log entry of the spawn that \<^verbatim>\<open>_run\<close> of a node makes.\<close>

definition fresh_popen :: "(nat \<Rightarrow> proc_behaviour) \<Rightarrow> shell_state \<Rightarrow> popen" where
  "fresh_popen env s =
     \<lparr>proc_no = length (spawned s), pid = os_pid (env (length (spawned s))),
      returncode = None, stdin_log = []\<rparr>"

definition spawn_entry :: "nat \<Rightarrow> shell_state \<Rightarrow> popen_call" where
  "spawn_entry i s = \<lparr>command = str_join '' '' (args (heap s ! i)), shell = True\<rparr>"

text \<open>The writes that lines 78 and 79 make for a resolved input.\<close>

definition writes :: "bytes option \<Rightarrow> stdin_op list" where
  "writes pin = (case pin of None \<Rightarrow> [] | Some b \<Rightarrow> map Write (splitlines b))"

text \<open>
  How the input \<open>pin\<close> that \<^verbatim>\<open>_run\<close> of node \<open>i\<close> writes is resolved from the pipe
  source the node has in \<open>s\<close>: nothing, the payload, or what the selected property of
  the upstream node returns.
\<close>

definition fed ::
  "(nat \<Rightarrow> proc_behaviour) \<Rightarrow> nat option \<Rightarrow> nat \<Rightarrow> shell_state \<Rightarrow> bytes option \<Rightarrow> bool" where
  "fed env cur i s pin \<longleftrightarrow>
     (case pipe_in (heap s ! i) of
        NoPipe \<Rightarrow> pin = None
      | Payload b \<Rightarrow> pin = Some b
      | Upstream j \<Rightarrow>
          (\<exists>u u'. read_selected env cur (pipe_in_type (heap s ! i)) j u = Returns (pin, u')))"

text \<open>
  What the parts of the engine that work on one node may do to it: they leave its name,
  arguments, pipe source, selector, flags, execution thread and finalised stderr, and
  they never reset a drainer thread.
\<close>

definition local_step :: "CLITool \<Rightarrow> CLITool \<Rightarrow> bool" where
  "local_step n n' \<longleftrightarrow>
     name n' = name n \<and> args n' = args n \<and> pipe_in n' = pipe_in n \<and>
     pipe_in_type n' = pipe_in_type n \<and> concurrent n' = concurrent n \<and>
     has_run n' = has_run n \<and> thread n' = thread n \<and> u_stderr n' = u_stderr n \<and>
     (u_stdout_thread n \<noteq> NotStarted \<longrightarrow> u_stdout_thread n' \<noteq> NotStarted) \<and>
     (u_stderr_thread n \<noteq> NotStarted \<longrightarrow> u_stderr_thread n' \<noteq> NotStarted)"

definition touches :: "nat \<Rightarrow> shell_state \<Rightarrow> shell_state \<Rightarrow> bool" where
  "touches i s s' \<longleftrightarrow>
     signals s' = signals s \<and> length (heap s') = length (heap s) \<and>
     (\<forall>k. k \<noteq> i \<longrightarrow> heap s' ! k = heap s ! k) \<and>
     local_step (heap s ! i) (heap s' ! i) \<and>
     (\<exists>xs. spawned s' = spawned s @ xs)"

text \<open>
  A relation between the state before and the state after that every part of the engine
  respects, for the nodes \<open>A\<close> admits.
\<close>

definition engine_rel ::
  "(nat \<Rightarrow> shell_state \<Rightarrow> bool) \<Rightarrow> (shell_state \<Rightarrow> shell_state \<Rightarrow> bool) \<Rightarrow> bool" where
  "engine_rel A R \<longleftrightarrow>
     (\<forall>s. R s s) \<and>
     (\<forall>a b c. R a b \<longrightarrow> R b c \<longrightarrow> R a c) \<and>
     (\<forall>i s s'. A i s \<longrightarrow> touches i s s' \<longrightarrow> R s s') \<and>
     (\<forall>i s. A i s \<longrightarrow> R s (upd i (\<lambda>n. n\<lparr>has_run := True\<rparr>) s)) \<and>
     (\<forall>i s t. A i s \<longrightarrow> t \<noteq> NotStarted \<longrightarrow> R s (upd i (\<lambda>n. n\<lparr>thread := t\<rparr>) s)) \<and>
     (\<forall>i env cur ty j s. A i s \<longrightarrow>
         R s (state_of_pair (read_selected env cur ty j s :: (bytes option \<times> shell_state) outcome))) \<and>
     (\<forall>i s s'. A i s \<longrightarrow> R s s' \<longrightarrow> A i s') \<and>
     (\<forall>i j s. A i s \<longrightarrow> j < length (heap s) \<longrightarrow> \<not> has_run (heap s ! j) \<longrightarrow> A j s)"

text \<open>
  What never changes and what only grows while the engine runs: the identity of every
  node (name, arguments, pipe source, selector, background flag) and its finalised
  stderr, its has-run flag and its started threads, the signals delivered and the log of
  spawns.
\<close>

definition node_evolves :: "CLITool \<Rightarrow> CLITool \<Rightarrow> bool" where
  "node_evolves n n' \<longleftrightarrow>
     name n' = name n \<and> args n' = args n \<and> pipe_in n' = pipe_in n \<and>
     pipe_in_type n' = pipe_in_type n \<and> concurrent n' = concurrent n \<and>
     u_stderr n' = u_stderr n \<and>
     (has_run n \<longrightarrow> has_run n') \<and>
     (thread n \<noteq> NotStarted \<longrightarrow> thread n' \<noteq> NotStarted) \<and>
     (u_stdout_thread n \<noteq> NotStarted \<longrightarrow> u_stdout_thread n' \<noteq> NotStarted) \<and>
     (u_stderr_thread n \<noteq> NotStarted \<longrightarrow> u_stderr_thread n' \<noteq> NotStarted)"

definition evolves :: "shell_state \<Rightarrow> shell_state \<Rightarrow> bool" where
  "evolves s s' \<longleftrightarrow>
     signals s' = signals s \<and> length (heap s') = length (heap s) \<and>
     (\<exists>xs. spawned s' = spawned s @ xs) \<and>
     (\<forall>k. node_evolves (heap s ! k) (heap s' ! k))"

text \<open>The frame of a node \<open>k\<close> that has run and whose execution thread is not alive.\<close>

definition settled :: "nat \<Rightarrow> nat \<Rightarrow> shell_state \<Rightarrow> bool" where
  "settled k i s \<longleftrightarrow> i \<noteq> k \<and> has_run (heap s ! k) \<and> thread (heap s ! k) \<noteq> Alive"

definition same_node :: "nat \<Rightarrow> shell_state \<Rightarrow> shell_state \<Rightarrow> bool" where
  "same_node k s s' \<longleftrightarrow> heap s' ! k = heap s ! k \<and> length (heap s') = length (heap s)"

text \<open>The bytes of the chunks that the drainer of one stream discovers.\<close>

definition chunks_of :: "stream \<Rightarrow> (stream \<times> bytes) list \<Rightarrow> bytes" where
  "chunks_of st es = concat (map snd (filter (\<lambda>e. fst e = st) es))"

section \<open>Example inputs\<close>

text \<open>A store with one node whose stdout and stderr queues hold the given items.\<close>

definition queued :: "bytes list \<Rightarrow> bytes list \<Rightarrow> shell_state" where
  "queued outs errs =
     \<lparr>heap = [(init_CLITool ''cmd'')\<lparr>u_stdout_queue := outs, u_stderr_queue := errs\<rparr>],
      spawned = [], signals = []\<rparr>"

text \<open>
  A store with one node that has spawned a process with the given pid and cached return
  code.
\<close>

definition spawned_node :: "nat \<Rightarrow> int option \<Rightarrow> shell_state" where
  "spawned_node p rc =
     \<lparr>heap = [(init_CLITool ''cmd'')
                \<lparr>process := Some \<lparr>proc_no = 0, pid = p, returncode = rc, stdin_log = []\<rparr>\<rparr>],
      spawned = [\<lparr>command = ''cmd'', shell = True\<rparr>], signals = []\<rparr>"

text \<open>
  One node, \<^verbatim>\<open>SHELL.make("all")\<close>, and an environment in which every process writes
  one line to stdout, then one line to stderr, and exits with status 0.
\<close>

definition make_node :: shell_state where
  "make_node =
     (case Shell_getattr ''make'' empty_state of
        (a, s) \<Rightarrow> snd (dunder_call a [PyStr ''all''] s))"

definition env_out_err :: "nat \<Rightarrow> proc_behaviour" where
  "env_out_err k =
     \<lparr>os_pid = 100 + k,
      drained = [(StdOut, ''out\<newline>''), (StdErr, ''err\<newline>'')],
      exit_status = Some 0\<rparr>"

definition make_done :: shell_state where
  "make_done = state_of (run env_out_err None 0 make_node)"

text \<open>
  The pipeline \<^verbatim>\<open>SHELL.seq(1, 2) | SHELL.cat()\<close>: node 0 is \<^verbatim>\<open>seq\<close>, node 1 is
  \<^verbatim>\<open>cat\<close>. Running node 1 spawns \<^verbatim>\<open>cat\<close> first and \<^verbatim>\<open>seq\<close> second; \<^verbatim>\<open>seq\<close>
  writes two lines to stdout.
\<close>

definition seq_cat :: shell_state where
  "seq_cat =
     (case Shell_getattr ''seq'' empty_state of (a, s0) \<Rightarrow>
      case dunder_call a [PyInt 1, PyInt 2] s0 of (a, s1) \<Rightarrow>
      case Shell_getattr ''cat'' s1 of (b, s2) \<Rightarrow>
      case dunder_call b [] s2 of (b, s3) \<Rightarrow>
      state_of_pair (dunder_or a (Tool b) s3))"

definition env_seq_cat :: "nat \<Rightarrow> proc_behaviour" where
  "env_seq_cat k =
     (if k = 1
      then \<lparr>os_pid = 201, drained = [(StdOut, ''1\<newline>''), (StdOut, ''2\<newline>'')],
            exit_status = Some 0\<rparr>
      else \<lparr>os_pid = 200, drained = [], exit_status = Some 0\<rparr>)"

definition seq_cat_done :: shell_state where
  "seq_cat_done = state_of (run env_seq_cat None 1 seq_cat)"

text \<open>Three fresh nodes \<^verbatim>\<open>x\<close>, \<^verbatim>\<open>a\<close> and \<^verbatim>\<open>b\<close>, with indices 0, 1 and 2.\<close>

definition three_nodes :: shell_state where
  "three_nodes =
     \<lparr>heap = [init_CLITool ''x'', init_CLITool ''a'', init_CLITool ''b''],
      spawned = [], signals = []\<rparr>"

text \<open>
  \<^verbatim>\<open>SHELL.grep("a b")\<close> and \<^verbatim>\<open>SHELL.grep("a", "b")\<close>, each as the only node of
  a store.
\<close>

definition grep_one_arg :: shell_state where
  "grep_one_arg =
     (case Shell_getattr ''grep'' empty_state of
        (a, s) \<Rightarrow> snd (dunder_call a [PyStr ''a b''] s))"

definition grep_two_args :: shell_state where
  "grep_two_args =
     (case Shell_getattr ''grep'' empty_state of
        (a, s) \<Rightarrow> snd (dunder_call a [PyStr ''a'', PyStr ''b''] s))"




section \<open>Auxiliary facts\<close>

lemma next_stream_line_fst:
  assumes "i < length (heap s)"
  shows "fst (next_stream_line i s) =
     (case u_stdout_queue (heap s ! i) of [] \<Rightarrow> None | x # xs \<Rightarrow> Some x,
      case u_stderr_queue (heap s ! i) of [] \<Rightarrow> None | y # ys \<Rightarrow> Some y)"
  using assms by (auto simp: next_stream_line_def split: list.splits)

lemma next_stream_line_queues:
  assumes "i < length (heap s)"
  shows "u_stdout_queue (heap (snd (next_stream_line i s)) ! i) = tl (u_stdout_queue (heap s ! i))"
    and "u_stderr_queue (heap (snd (next_stream_line i s)) ! i) = tl (u_stderr_queue (heap s ! i))"
    and "u_all_queue (heap (snd (next_stream_line i s)) ! i) = u_all_queue (heap s ! i)"
  using assms by (auto simp: next_stream_line_def split: list.splits)

lemma running_iff:
  "fst (running now i s) \<longleftrightarrow>
     (\<exists>p. process (heap s ! i) = Some p \<and> returncode p = None \<and> now (pid p) = None)"
  by (auto simp: running_def poll_def split: option.splits)

lemma running_signals [simp]: "signals (snd (running now i s)) = signals s"
  by (simp add: running_def poll_def split: option.splits)

lemma running_pid:
  "i < length (heap s) \<Longrightarrow> pid_prop i (snd (running now i s)) = pid_prop i s"
  by (simp add: running_def poll_def pid_prop_def split: option.splits)

lemma kill_unfold:
  "kill now i s =
     (if fst (running now i s) then
        (case pid_prop i (snd (running now i s)) of
           Some p \<Rightarrow> Returns ((snd (running now i s))
                        \<lparr>signals := signals (snd (running now i s)) @ [(p, SIGTERM)]\<rparr>)
         | None \<Rightarrow> Raises (TypeError ''an integer is required'') (snd (running now i s)))
      else Raises (RuntimeError
             (''Tried to kill process that doesnt exist with pid:(''
                @ pid_repr (pid_prop i (snd (running now i s))) @ '').''))
             (snd (running now i s)))"
  by (cases "running now i s") (auto simp: kill_def split: option.splits)

lemmas engine_eval =
  empty_state_def Shell_getattr_def dunder_call_def dunder_or_def dunder_matmul_def
  dunder_mod_def dunder_invert_def init_CLITool_def upd_def run.simps u_run.simps
  u_run_head_def Popen_def thread_start_def u_run_tail_def u_kill_stream_threads_def
  finish_def finalize_def write_stdin_def drainer_alive_def join_thread_def
  u_stdout_reader_step_def u_stderr_reader_step_def read_selected_def stdout_def stderr_def
  all_prop_def cached_or_finish_def wait_process_def splitlines_def LF_def CR_def
  digit_char_def stdin_of_def

lemma run_make_node:
  "run env_out_err None 0 make_node =
     Returns
      \<lparr>heap =
        [\<lparr>name = ''make'',
          process = Some \<lparr>proc_no = 0, pid = 100, returncode = Some 0, stdin_log = []\<rparr>,
          pipe_in = NoPipe, args = [''make'', ''all''], thread = NotStarted,
          u_stdout_thread = Stopped, u_stderr_thread = Stopped, u_stderr = None,
          u_stdout = Some ''out\<newline>'', u_all = Some ''out\<newline>err\<newline>'',
          u_stderr_buffer = ''err\<newline>'', u_stdout_buffer = ''out\<newline>'',
          u_all_buffer = ''out\<newline>err\<newline>'', u_all_queue = [''out\<newline>'', ''err\<newline>''],
          u_stdout_queue = [''out\<newline>''], u_stderr_queue = [''err\<newline>''],
          u_stdin_queue = [], pipe_in_type = PipeOUT, concurrent = False, has_run = True\<rparr>],
       spawned = [\<lparr>command = ''make all'', shell = True\<rparr>], signals = []\<rparr>"
  by (simp add: make_node_def env_out_err_def engine_eval)

lemma run_seq_cat:
  "run env_seq_cat None 1 seq_cat =
     Returns
      \<lparr>heap =
        [\<lparr>name = ''seq'',
          process = Some \<lparr>proc_no = 1, pid = 201, returncode = Some 0, stdin_log = []\<rparr>,
          pipe_in = NoPipe, args = [''seq'', ''1'', ''2''], thread = NotStarted,
          u_stdout_thread = Stopped, u_stderr_thread = Stopped, u_stderr = None,
          u_stdout = Some ''1\<newline>2\<newline>'', u_all = Some ''1\<newline>2\<newline>'',
          u_stderr_buffer = [], u_stdout_buffer = ''1\<newline>2\<newline>'',
          u_all_buffer = ''1\<newline>2\<newline>'', u_all_queue = [''1\<newline>'', ''2\<newline>''],
          u_stdout_queue = [''1\<newline>'', ''2\<newline>''], u_stderr_queue = [],
          u_stdin_queue = [], pipe_in_type = PipeOUT, concurrent = False, has_run = True\<rparr>,
         \<lparr>name = ''cat'',
          process = Some \<lparr>proc_no = 0, pid = 200, returncode = Some 0,
                          stdin_log = [Write ''1'', Write ''2'']\<rparr>,
          pipe_in = Upstream 0, args = [''cat''], thread = NotStarted,
          u_stdout_thread = Stopped, u_stderr_thread = Stopped, u_stderr = None,
          u_stdout = Some [], u_all = Some [],
          u_stderr_buffer = [], u_stdout_buffer = [],
          u_all_buffer = [], u_all_queue = [],
          u_stdout_queue = [], u_stderr_queue = [],
          u_stdin_queue = [], pipe_in_type = PipeOUT, concurrent = False, has_run = True\<rparr>],
       spawned = [\<lparr>command = ''cat'', shell = True\<rparr>, \<lparr>command = ''seq 1 2'', shell = True\<rparr>],
       signals = []\<rparr>"
  by (simp add: seq_cat_def env_seq_cat_def engine_eval)

subsection \<open>The parts of the engine touch one node\<close>

lemma u_run_unfold:
  "u_run env cur i s =
     (if i < length (heap s) then
        (case u_run_head env i s of
           Returns s1 \<Rightarrow> u_run_rest env cur i s1
         | Raises e s1 \<Rightarrow> Raises e s1
         | Hangs s1 \<Rightarrow> Hangs s1)
      else Raises (BadRef i) s)"
  by (simp add: u_run.simps [of env cur i s] u_run_rest_def cong: outcome.case_cong)

lemma local_step_refl [simp]: "local_step n n"
  by (simp add: local_step_def)

lemma local_step_trans: "local_step a b \<Longrightarrow> local_step b c \<Longrightarrow> local_step a c"
  by (simp add: local_step_def)

lemma touches_refl [simp]: "touches i s s"
  by (simp add: touches_def)

lemma touches_trans:
  assumes "touches i a b" and "touches i b c"
  shows "touches i a c"
proof -
  from assms obtain xs ys where "spawned b = spawned a @ xs" and "spawned c = spawned b @ ys"
    unfolding touches_def by blast
  then have "spawned c = spawned a @ (xs @ ys)" by simp
  then have sp: "\<exists>zs. spawned c = spawned a @ zs" ..
  from assms have "local_step (heap a ! i) (heap b ! i)" and "local_step (heap b ! i) (heap c ! i)"
    unfolding touches_def by blast+
  then have ls: "local_step (heap a ! i) (heap c ! i)" by (rule local_step_trans)
  from assms have "signals c = signals a" and "length (heap c) = length (heap a)"
    and "\<forall>k. k \<noteq> i \<longrightarrow> heap c ! k = heap a ! k"
    unfolding touches_def by simp_all
  with sp ls show ?thesis unfolding touches_def by blast
qed

lemma upd_beyond:
  assumes "\<not> i < length (heap s)"
  shows "upd i f s = s"
proof -
  from assms have "(heap s)[i := f (heap s ! i)] = heap s"
    by (simp add: not_less list_update_beyond)
  then show ?thesis by (simp add: upd_def)
qed

lemma touches_upd: "local_step (heap s ! i) (f (heap s ! i)) \<Longrightarrow> touches i s (upd i f s)"
  by (cases "i < length (heap s)") (simp_all add: touches_def upd_beyond)

lemma touches_spawn: "touches i s (s\<lparr>spawned := spawned s @ xs\<rparr>)"
  by (simp add: touches_def)

lemma local_step_drain: "local_step n (foldl drain_step n es)"
proof (induction es arbitrary: n)
  case Nil
  show ?case by simp
next
  case (Cons e es)
  obtain st d where e: "e = (st, d)" by (cases e)
  have "local_step n (drain_step n e)"
    unfolding e
    by (cases st) (simp_all add: local_step_def u_stdout_reader_step_def u_stderr_reader_step_def)
  moreover have "local_step (drain_step n e) (foldl drain_step (drain_step n e) es)"
    by (rule Cons.IH)
  ultimately have "local_step n (foldl drain_step (drain_step n e) es)"
    by (rule local_step_trans)
  then show ?case by simp
qed

lemma local_step_write_stdin: "local_step n (write_stdin pin n)"
  by (simp add: local_step_def write_stdin_def split: option.splits)

lemma local_step_finalize: "local_step n (finalize n)"
  by (simp add: local_step_def finalize_def Let_def)

lemma touches_kill_stream_threads: "touches i s (state_of (u_kill_stream_threads env i s))"
proof -
  have j: "local_step n (n'\<lparr>process := p, u_stdout_thread := join_thread (u_stdout_thread n'),
              u_stderr_thread := join_thread (u_stderr_thread n')\<rparr>)"
    if "local_step n n'" for n n' p
    using that by (simp add: local_step_def join_thread_def)
  show ?thesis
    unfolding u_kill_stream_threads_def Let_def
    by (auto simp: j local_step_drain intro!: touches_upd split: option.splits)
qed

lemma touches_finish: "touches i s (state_of (finish env cur i s))"
proof (cases "u_kill_stream_threads env i s")
  case (Returns s1)
  with touches_kill_stream_threads [of i s env] show ?thesis
    by (simp add: finish_def)
next
  case (Raises e s1)
  with touches_kill_stream_threads [of i s env] show ?thesis
    by (simp add: finish_def)
next
  case (Hangs s1)
  with touches_kill_stream_threads [of i s env] show ?thesis
    by (simp add: finish_def)
qed

lemma touches_cached_or_finish:
  "touches i s (state_of_pair (cached_or_finish field env cur i s))"
proof (cases "finish env cur i s")
  case (Returns s1)
  with touches_finish [of i s env cur] show ?thesis
    by (simp add: cached_or_finish_def split: option.splits)
next
  case (Raises e s1)
  with touches_finish [of i s env cur] show ?thesis
    by (simp add: cached_or_finish_def split: option.splits)
next
  case (Hangs s1)
  with touches_finish [of i s env cur] show ?thesis
    by (simp add: cached_or_finish_def split: option.splits)
qed

lemma touches_read_selected:
  "touches j s (state_of_pair (read_selected env cur ty j s))"
  by (cases ty)
     (simp_all add: read_selected_def stdout_def stderr_def all_prop_def touches_cached_or_finish)

lemma touches_u_run_tail: "touches i s (state_of (u_run_tail env i pin s))"
proof -
  let ?s1 = "upd i (write_stdin pin) s"
  have a: "touches i s ?s1"
    by (rule touches_upd) (rule local_step_write_stdin)
  have b: "touches i ?s1 (state_of (u_kill_stream_threads env i ?s1))"
    by (rule touches_kill_stream_threads)
  show ?thesis
  proof (cases "u_kill_stream_threads env i ?s1")
    case (Returns s2)
    have "touches i s2 (upd i finalize s2)"
      by (rule touches_upd) (rule local_step_finalize)
    moreover from a b Returns have "touches i s s2"
      using touches_trans by fastforce
    ultimately have "touches i s (upd i finalize s2)" using touches_trans by blast
    with Returns show ?thesis by (simp add: u_run_tail_def)
  next
    case (Raises e s2)
    with a b have "touches i s s2" using touches_trans by fastforce
    with Raises show ?thesis by (simp add: u_run_tail_def)
  next
    case (Hangs s2)
    with a b have "touches i s s2" using touches_trans by fastforce
    with Hangs show ?thesis by (simp add: u_run_tail_def)
  qed
qed

lemma touches_u_run_head: "touches i s (state_of (u_run_head env i s))"
proof -
  let ?p = "\<lparr>proc_no = length (spawned s), pid = os_pid (env (length (spawned s))),
             returncode = None, stdin_log = []\<rparr>"
  let ?s1 = "s\<lparr>spawned := spawned s @ [\<lparr>command = str_join '' '' (args (heap s ! i)), shell = True\<rparr>]\<rparr>"
  let ?s2 = "upd i (\<lambda>n. n\<lparr>process := Some ?p\<rparr>) ?s1"
  let ?s3 = "upd i (\<lambda>n. n\<lparr>u_stdout_thread := Alive\<rparr>) ?s2"
  let ?s4 = "upd i (\<lambda>n. n\<lparr>u_stderr_thread := Alive\<rparr>) ?s3"
  have 1: "touches i s ?s1" by (rule touches_spawn)
  have "touches i ?s1 ?s2" by (rule touches_upd) (simp add: local_step_def)
  with 1 have 2: "touches i s ?s2" by (rule touches_trans)
  have "touches i ?s2 ?s3" by (rule touches_upd) (simp add: local_step_def)
  with 2 have 3: "touches i s ?s3" by (rule touches_trans)
  have "touches i ?s3 ?s4" by (rule touches_upd) (simp add: local_step_def)
  with 3 have 4: "touches i s ?s4" by (rule touches_trans)
  have "state_of (u_run_head env i s) = ?s2 \<or> state_of (u_run_head env i s) = ?s3
      \<or> state_of (u_run_head env i s) = ?s4"
    by (simp add: u_run_head_def Popen_def Let_def thread_start_def)
  with 2 3 4 show ?thesis by metis
qed

subsection \<open>Induction over the engine\<close>

lemma state_of_wait_process [simp]: "state_of (wait_process i s) = s"
  by (simp add: wait_process_def)

lemma thread_start_Inr: "thread_start t = Inr b \<Longrightarrow> b = Alive"
  by (simp add: thread_start_def split: if_splits)

lemma engine_rel_refl:
  assumes "engine_rel A R"
  shows "R s s"
proof -
  have "\<forall>s. R s s"
    by (rule conjunct1 [OF assms(1) [unfolded engine_rel_def]])
  then show ?thesis by blast
qed

lemma engine_rel_trans:
  assumes "engine_rel A R" and "R a b" and "R b c"
  shows "R a c"
proof -
  have "\<forall>a b c. R a b \<longrightarrow> R b c \<longrightarrow> R a c"
    by (rule conjunct1 [OF conjunct2 [OF assms(1) [unfolded engine_rel_def]]])
  with assms(2,3) show ?thesis by blast
qed

lemma engine_rel_touches:
  assumes "engine_rel A R" and "A i s" and "touches i s s'"
  shows "R s s'"
proof -
  have "\<forall>i s s'. A i s \<longrightarrow> touches i s s' \<longrightarrow> R s s'"
    by (rule conjunct1 [OF conjunct2 [OF conjunct2 [OF assms(1) [unfolded engine_rel_def]]]])
  with assms(2,3) show ?thesis by blast
qed

lemma engine_rel_has_run:
  assumes "engine_rel A R" and "A i s"
  shows "R s (upd i (\<lambda>n. n\<lparr>has_run := True\<rparr>) s)"
proof -
  have "\<forall>i s. A i s \<longrightarrow> R s (upd i (\<lambda>n. n\<lparr>has_run := True\<rparr>) s)"
    by (rule conjunct1 [OF conjunct2 [OF conjunct2 [OF conjunct2 [OF assms(1) [unfolded engine_rel_def]]]]])
  with assms(2) show ?thesis by blast
qed

lemma engine_rel_thread:
  assumes "engine_rel A R" and "A i s" and "t \<noteq> NotStarted"
  shows "R s (upd i (\<lambda>n. n\<lparr>thread := t\<rparr>) s)"
proof -
  have "\<forall>i s t. A i s \<longrightarrow> t \<noteq> NotStarted \<longrightarrow> R s (upd i (\<lambda>n. n\<lparr>thread := t\<rparr>) s)"
    by (rule conjunct1 [OF conjunct2 [OF conjunct2 [OF conjunct2 [OF conjunct2 [OF assms(1) [unfolded engine_rel_def]]]]]])
  with assms(2,3) show ?thesis by blast
qed

lemma engine_rel_sel:
  assumes "engine_rel A R" and "A i s"
  shows "R s (state_of_pair (read_selected env cur ty j s))"
proof -
  have "\<forall>i env cur ty j s. A i s \<longrightarrow> R s (state_of_pair (read_selected env cur ty j s))"
    by (rule conjunct1 [OF conjunct2 [OF conjunct2 [OF conjunct2 [OF conjunct2 [OF conjunct2 [OF assms(1) [unfolded engine_rel_def]]]]]]])
  with assms(2) show ?thesis by blast
qed

lemma engine_rel_mono:
  assumes "engine_rel A R" and "A i s" and "R s s'"
  shows "A i s'"
proof -
  have "\<forall>i s s'. A i s \<longrightarrow> R s s' \<longrightarrow> A i s'"
    by (rule conjunct1 [OF conjunct2 [OF conjunct2 [OF conjunct2 [OF conjunct2 [OF conjunct2 [OF conjunct2 [OF assms(1) [unfolded engine_rel_def]]]]]]]])
  with assms(2,3) show ?thesis by blast
qed

lemma engine_rel_up:
  assumes "engine_rel A R" and "A i s" and "j < length (heap s)" and "\<not> has_run (heap s ! j)"
  shows "A j s"
proof -
  have "\<forall>i j s. A i s \<longrightarrow> j < length (heap s) \<longrightarrow> \<not> has_run (heap s ! j) \<longrightarrow> A j s"
    by (rule conjunct2 [OF conjunct2 [OF conjunct2 [OF conjunct2 [OF conjunct2 [OF conjunct2 [OF conjunct2 [OF assms(1) [unfolded engine_rel_def]]]]]]]])
  with assms(2,3,4) show ?thesis by blast
qed

text \<open>The rest of \<^verbatim>\<open>_run\<close> respects the relation when the run of the pipe source does.\<close>

lemma rest_step:
  assumes E: "engine_rel A R"
    and A: "A i s1"
    and up: "\<And>j. pipe_in (heap s1 ! i) = Upstream j \<Longrightarrow> j < length (heap s1) \<Longrightarrow>
               \<not> has_run (heap s1 ! j) \<Longrightarrow> R s1 (state_of (run env cur j s1))"
  shows "R s1 (state_of (u_run_rest env cur i s1))"
proof (cases "pipe_in (heap s1 ! i)")
  case NoPipe
  have "R s1 (state_of (u_run_tail env i None s1))"
    by (rule engine_rel_touches [OF E A touches_u_run_tail])
  with NoPipe show ?thesis by (simp add: u_run_rest_def)
next
  case (Payload b)
  have "R s1 (state_of (u_run_tail env i (Some b) s1))"
    by (rule engine_rel_touches [OF E A touches_u_run_tail])
  with Payload show ?thesis by (simp add: u_run_rest_def)
next
  case (Upstream j)
  show ?thesis
  proof (cases "j < length (heap s1)")
    case False
    with Upstream show ?thesis by (simp add: u_run_rest_def engine_rel_refl [OF E])
  next
    case jlt: True
    define r where "r = (if \<not> has_run (heap s1 ! j) then run env cur j s1 else Returns s1)"
    have rr: "R s1 (state_of r)"
      using up [OF Upstream jlt] by (simp add: r_def engine_rel_refl [OF E])
    have eq: "u_run_rest env cur i s1 =
        (case r of
           Returns s2 \<Rightarrow>
             (case read_selected env cur (pipe_in_type (heap s2 ! i)) j s2 of
                Returns (pin, s3) \<Rightarrow> u_run_tail env i pin s3
              | Raises e s3 \<Rightarrow> Raises e s3
              | Hangs s3 \<Rightarrow> Hangs s3)
         | Raises e s2 \<Rightarrow> Raises e s2
         | Hangs s2 \<Rightarrow> Hangs s2)"
      using Upstream jlt by (simp add: u_run_rest_def r_def)
    show ?thesis
    proof (cases r)
      case (Raises e s2)
      with rr show ?thesis by (simp add: eq)
    next
      case (Hangs s2)
      with rr show ?thesis by (simp add: eq)
    next
      case (Returns s2)
      with rr have r2: "R s1 s2" by simp
      have A2: "A i s2" by (rule engine_rel_mono [OF E A r2])
      let ?sel = "read_selected env cur (pipe_in_type (heap s2 ! i)) j s2"
      have rs: "R s2 (state_of_pair ?sel)" by (rule engine_rel_sel [OF E A2])
      show ?thesis
      proof (cases ?sel)
        case (Raises e s3)
        with rs r2 have "R s1 s3" using engine_rel_trans [OF E] by fastforce
        with Raises Returns show ?thesis by (simp add: eq)
      next
        case (Hangs s3)
        with rs r2 have "R s1 s3" using engine_rel_trans [OF E] by fastforce
        with Hangs Returns show ?thesis by (simp add: eq)
      next
        case sel: (Returns ps)
        obtain pin s3 where ps: "ps = (pin, s3)" by (cases ps)
        with sel rs have "R s2 s3" by simp
        with r2 have r3: "R s1 s3" by (rule engine_rel_trans [OF E])
        have A3: "A i s3" by (rule engine_rel_mono [OF E A r3])
        have "R s3 (state_of (u_run_tail env i pin s3))"
          by (rule engine_rel_touches [OF E A3 touches_u_run_tail])
        with r3 have "R s1 (state_of (u_run_tail env i pin s3))"
          by (rule engine_rel_trans [OF E])
        with sel ps Returns show ?thesis by (simp add: eq)
      qed
    qed
  qed
qed

lemma u_run_step:
  assumes E: "engine_rel A R"
    and A: "A i s"
    and up: "\<And>s1 j. i < length (heap s) \<Longrightarrow> u_run_head env i s = Returns s1 \<Longrightarrow>
               pipe_in (heap s1 ! i) = Upstream j \<Longrightarrow>
               j < length (heap s1) \<Longrightarrow> \<not> has_run (heap s1 ! j) \<Longrightarrow> A j s1 \<Longrightarrow>
               R s1 (state_of (run env cur j s1))"
  shows "R s (state_of (u_run env cur i s))"
proof (cases "i < length (heap s)")
  case False
  then show ?thesis by (simp add: u_run_unfold engine_rel_refl [OF E])
next
  case True
  have rh: "R s (state_of (u_run_head env i s))"
    by (rule engine_rel_touches [OF E A touches_u_run_head])
  show ?thesis
  proof (cases "u_run_head env i s")
    case (Raises e s1)
    with True rh show ?thesis by (simp add: u_run_unfold)
  next
    case (Hangs s1)
    with True rh show ?thesis by (simp add: u_run_unfold)
  next
    case (Returns s1)
    with rh have r1: "R s s1" by simp
    have A1: "A i s1" by (rule engine_rel_mono [OF E A r1])
    have "R s1 (state_of (u_run_rest env cur i s1))"
    proof (rule rest_step [OF E A1])
      fix j
      assume "pipe_in (heap s1 ! i) = Upstream j" and "j < length (heap s1)"
        and "\<not> has_run (heap s1 ! j)"
      moreover from this have "A j s1" using engine_rel_up [OF E A1] by blast
      ultimately show "R s1 (state_of (run env cur j s1))"
        using up [OF True Returns] by blast
    qed
    with r1 have "R s (state_of (u_run_rest env cur i s1))" by (rule engine_rel_trans [OF E])
    with True Returns show ?thesis by (simp add: u_run_unfold)
  qed
qed

lemma run_step:
  assumes E: "engine_rel A R"
    and A: "A i s"
    and bg: "\<And>x b. i < length (heap s) \<Longrightarrow> x = upd i (\<lambda>n. n\<lparr>has_run := True\<rparr>) s \<Longrightarrow>
               concurrent (heap x ! i) \<Longrightarrow> thread_start (thread (heap x ! i)) = Inr b \<Longrightarrow>
               A i (upd i (\<lambda>n. n\<lparr>thread := b\<rparr>) x) \<Longrightarrow>
               R (upd i (\<lambda>n. n\<lparr>thread := b\<rparr>) x)
                 (state_of (u_run env (Some i) i (upd i (\<lambda>n. n\<lparr>thread := b\<rparr>) x)))"
    and fg: "\<And>x. i < length (heap s) \<Longrightarrow> x = upd i (\<lambda>n. n\<lparr>has_run := True\<rparr>) s \<Longrightarrow>
               \<not> concurrent (heap x ! i) \<Longrightarrow> A i x \<Longrightarrow>
               R x (state_of (u_run env cur i x))"
  shows "R s (state_of (run env cur i s))"
proof (cases "i < length (heap s)")
  case False
  then show ?thesis by (simp add: run.simps [of env cur i s] engine_rel_refl [OF E])
next
  case True
  define s1 where "s1 = upd i (\<lambda>n. n\<lparr>has_run := True\<rparr>) s"
  have r1: "R s s1" unfolding s1_def by (rule engine_rel_has_run [OF E A])
  have A1: "A i s1" by (rule engine_rel_mono [OF E A r1])
  show ?thesis
  proof (cases "concurrent (heap s1 ! i)")
    case conc: True
    show ?thesis
    proof (cases "thread_start (thread (heap s1 ! i))")
      case (Inl e)
      with True conc r1 show ?thesis by (simp add: run.simps [of env cur i s] s1_def Let_def)
    next
      case (Inr b)
      then have b: "b = Alive" by (rule thread_start_Inr)
      define s2 where "s2 = upd i (\<lambda>n. n\<lparr>thread := b\<rparr>) s1"
      have "R s1 s2" unfolding s2_def b by (rule engine_rel_thread [OF E A1]) simp
      with r1 have r2: "R s s2" by (rule engine_rel_trans [OF E])
      have A2: "A i s2" by (rule engine_rel_mono [OF E A r2])
      have ih: "R s2 (state_of (u_run env (Some i) i s2))"
        using bg [OF True s1_def conc Inr] A2 unfolding s2_def by blast
      then have r3: "R s (state_of (u_run env (Some i) i s2))"
        using r2 engine_rel_trans [OF E] by blast
      have st: "R s (upd i (\<lambda>n. n\<lparr>thread := Stopped\<rparr>) (state_of (u_run env (Some i) i s2)))"
      proof -
        have "A i (state_of (u_run env (Some i) i s2))" by (rule engine_rel_mono [OF E A r3])
        then have "R (state_of (u_run env (Some i) i s2))
            (upd i (\<lambda>n. n\<lparr>thread := Stopped\<rparr>) (state_of (u_run env (Some i) i s2)))"
          by (rule engine_rel_thread [OF E]) simp
        with r3 show ?thesis by (rule engine_rel_trans [OF E])
      qed
      have run_eq: "run env cur i s =
          (case u_run env (Some i) i s2 of
             Returns s3 \<Rightarrow> wait_process i (upd i (\<lambda>n. n\<lparr>thread := Stopped\<rparr>) s3)
           | Raises e s3 \<Rightarrow> wait_process i (upd i (\<lambda>n. n\<lparr>thread := Stopped\<rparr>) s3)
           | Hangs s3 \<Rightarrow> wait_process i s3)"
        using True conc Inr by (simp add: run.simps [of env cur i s] s1_def s2_def Let_def)
      show ?thesis
        using r3 st by (cases "u_run env (Some i) i s2") (simp_all add: run_eq)
    qed
  next
    case sync: False
    have ih: "R s1 (state_of (u_run env cur i s1))"
      by (rule fg [OF True s1_def sync A1])
    with r1 have r2: "R s (state_of (u_run env cur i s1))" by (rule engine_rel_trans [OF E])
    have run_eq: "run env cur i s =
          (case u_run env cur i s1 of
             Returns s2 \<Rightarrow> finish env cur i s2
           | Raises e s2 \<Rightarrow> Raises e s2
           | Hangs s2 \<Rightarrow> Hangs s2)"
      using True sync by (simp add: run.simps [of env cur i s] s1_def Let_def)
    show ?thesis
    proof (cases "u_run env cur i s1")
      case (Returns s2)
      with r2 have r: "R s s2" by simp
      have "A i s2" by (rule engine_rel_mono [OF E A r])
      then have "R s2 (state_of (finish env cur i s2))"
        by (rule engine_rel_touches [OF E _ touches_finish])
      with r have "R s (state_of (finish env cur i s2))" by (rule engine_rel_trans [OF E])
      with Returns show ?thesis by (simp add: run_eq)
    next
      case (Raises e s2)
      with r2 show ?thesis by (simp add: run_eq)
    next
      case (Hangs s2)
      with r2 show ?thesis by (simp add: run_eq)
    qed
  qed
qed


lemma engine_induct_aux:
  assumes E: "engine_rel A R"
  shows "(A i s \<longrightarrow> R s (state_of (run env cur i s)))"
    and "(A i s \<longrightarrow> R s (state_of (u_run env cur i s)))"
proof (induction env cur i s
    rule: run_u_run.induct
      [where P = "\<lambda>env cur i s. A i s \<longrightarrow> R s (state_of (run env cur i s))"
         and Q = "\<lambda>env cur i s. A i s \<longrightarrow> R s (state_of (u_run env cur i s))"])
  case (1 env cur i s)
  show ?case
  proof
    assume A: "A i s"
    show "R s (state_of (run env cur i s))"
      using "1.IH" by (intro run_step [OF E A]) blast+
  qed
next
  case (2 env cur i s)
  show ?case
  proof
    assume A: "A i s"
    show "R s (state_of (u_run env cur i s))"
      using "2.IH" by (intro u_run_step [OF E A]) blast
  qed
qed

lemma run_respects:
  assumes "engine_rel A R" and "A i s"
  shows "R s (state_of (run env cur i s))"
  using engine_induct_aux(1) [OF assms(1)] assms(2) by blast

lemma u_run_respects:
  assumes "engine_rel A R" and "A i s"
  shows "R s (state_of (u_run env cur i s))"
  using engine_induct_aux(2) [OF assms(1)] assms(2) by blast

lemma u_run_rest_respects:
  assumes E: "engine_rel A R" and A: "A i s"
  shows "R s (state_of (u_run_rest env cur i s))"
proof (rule rest_step [OF E A])
  fix j
  assume "pipe_in (heap s ! i) = Upstream j" and "j < length (heap s)" and "\<not> has_run (heap s ! j)"
  then have "A j s" using engine_rel_up [OF E A] by blast
  then show "R s (state_of (run env cur j s))" by (rule run_respects [OF E])
qed

subsection \<open>What the engine keeps\<close>

lemma node_evolves_refl [simp]: "node_evolves n n"
  by (simp add: node_evolves_def)

lemma node_evolves_trans: "node_evolves a b \<Longrightarrow> node_evolves b c \<Longrightarrow> node_evolves a c"
  by (simp add: node_evolves_def)

lemma local_step_evolves: "local_step n n' \<Longrightarrow> node_evolves n n'"
  by (simp add: local_step_def node_evolves_def)

lemma evolves_refl [simp]: "evolves s s"
  by (simp add: evolves_def)

lemma evolves_trans:
  assumes "evolves a b" and "evolves b c"
  shows "evolves a c"
proof -
  from assms obtain xs ys where "spawned b = spawned a @ xs" and "spawned c = spawned b @ ys"
    unfolding evolves_def by blast
  then have "spawned c = spawned a @ (xs @ ys)" by simp
  then have sp: "\<exists>zs. spawned c = spawned a @ zs" ..
  have "node_evolves (heap a ! k) (heap c ! k)" for k
  proof -
    from assms have "node_evolves (heap a ! k) (heap b ! k)" and "node_evolves (heap b ! k) (heap c ! k)"
      unfolding evolves_def by blast+
    then show ?thesis by (rule node_evolves_trans)
  qed
  moreover from assms have "signals c = signals a" and "length (heap c) = length (heap a)"
    unfolding evolves_def by simp_all
  ultimately show ?thesis using sp unfolding evolves_def by blast
qed

lemma touches_evolves:
  assumes "touches i s s'"
  shows "evolves s s'"
proof -
  have "node_evolves (heap s ! k) (heap s' ! k)" for k
  proof (cases "k = i")
    case True
    with assms show ?thesis by (simp add: touches_def local_step_evolves)
  next
    case False
    with assms show ?thesis by (simp add: touches_def)
  qed
  with assms show ?thesis unfolding touches_def evolves_def by blast
qed

lemma upd_evolves:
  assumes "node_evolves (heap s ! i) (f (heap s ! i))"
  shows "evolves s (upd i f s)"
proof (cases "i < length (heap s)")
  case False
  then show ?thesis by (simp add: upd_beyond)
next
  case True
  have "node_evolves (heap s ! k) (heap (upd i f s) ! k)" for k
    using assms True by (cases "k = i") simp_all
  then show ?thesis by (simp add: evolves_def)
qed

lemma engine_rel_evolves: "engine_rel (\<lambda>i s. True) evolves"
  unfolding engine_rel_def
proof (intro conjI allI impI)
  fix a b c assume "evolves a b" and "evolves b c"
  then show "evolves a c" by (rule evolves_trans)
next
  fix i s s' assume "touches i s s'"
  then show "evolves s s'" by (rule touches_evolves)
next
  fix i s
  show "evolves s (upd i (\<lambda>n. n\<lparr>has_run := True\<rparr>) s)"
    by (rule upd_evolves) (simp add: node_evolves_def)
next
  fix i s and t :: thread_state
  assume "t \<noteq> NotStarted"
  then show "evolves s (upd i (\<lambda>n. n\<lparr>thread := t\<rparr>) s)"
    by (intro upd_evolves) (simp add: node_evolves_def)
next
  fix env cur ty j s
  show "evolves s (state_of_pair (read_selected env cur ty j s))"
    by (rule touches_evolves) (rule touches_read_selected)
qed simp_all

lemma run_evolves: "evolves s (state_of (run env cur i s))"
  by (rule run_respects [OF engine_rel_evolves]) simp

lemma u_run_evolves: "evolves s (state_of (u_run env cur i s))"
  by (rule u_run_respects [OF engine_rel_evolves]) simp

lemma u_run_rest_evolves: "evolves s (state_of (u_run_rest env cur i s))"
  by (rule u_run_rest_respects [OF engine_rel_evolves]) simp

subsection \<open>The frame of a settled node\<close>

lemma finish_not_alive: "thread (heap s ! i) \<noteq> Alive \<Longrightarrow> finish env cur i s = Returns s"
  by (simp add: finish_def)

lemma read_selected_not_alive:
  "thread (heap s ! j) \<noteq> Alive \<Longrightarrow> state_of_pair (read_selected env cur ty j s) = s"
  by (cases ty)
     (simp_all add: read_selected_def stdout_def stderr_def all_prop_def cached_or_finish_def
        finish_not_alive split: option.splits)

lemma touches_same_node: "touches i s s' \<Longrightarrow> i \<noteq> k \<Longrightarrow> same_node k s s'"
  by (simp add: touches_def same_node_def)

lemma engine_rel_settled: "engine_rel (settled k) (same_node k)"
  unfolding engine_rel_def
proof (intro conjI allI impI)
  fix s show "same_node k s s" by (simp add: same_node_def)
next
  fix a b c assume "same_node k a b" and "same_node k b c"
  then show "same_node k a c" by (simp add: same_node_def)
next
  fix i s s' assume "settled k i s" and "touches i s s'"
  then show "same_node k s s'" by (simp add: touches_same_node settled_def)
next
  fix i s assume "settled k i s"
  then show "same_node k s (upd i (\<lambda>n. n\<lparr>has_run := True\<rparr>) s)"
    by (simp add: same_node_def settled_def)
next
  fix i s and t :: thread_state
  assume "settled k i s"
  then show "same_node k s (upd i (\<lambda>n. n\<lparr>thread := t\<rparr>) s)"
    by (simp add: same_node_def settled_def)
next
  fix i env cur ty j s
  assume a: "settled k i s"
  show "same_node k s (state_of_pair (read_selected env cur ty j s))"
  proof (cases "j = k")
    case True
    with a show ?thesis by (simp add: settled_def read_selected_not_alive same_node_def)
  next
    case False
    with touches_read_selected [of j s env cur ty] show ?thesis
      by (simp add: touches_same_node)
  qed
next
  fix i s s' assume "settled k i s" and "same_node k s s'"
  then show "settled k i s'" by (simp add: settled_def same_node_def)
next
  fix i j s assume "settled k i s" and "\<not> has_run (heap s ! j)"
  then show "settled k j s" by (auto simp: settled_def)
qed

subsection \<open>The start of \<^verbatim>\<open>_run\<close>\<close>

lemma u_run_head_spawned:
  "spawned (state_of (u_run_head env i s)) = spawned s @ [spawn_entry i s]"
  by (simp add: u_run_head_def Popen_def Let_def spawn_entry_def split: sum.splits)

lemma u_run_head_process:
  "i < length (heap s) \<Longrightarrow>
   process (heap (state_of (u_run_head env i s)) ! i) = Some (fresh_popen env s)"
  by (simp add: u_run_head_def Popen_def Let_def fresh_popen_def split: sum.splits)

lemma u_run_head_Returns:
  assumes "u_run_head env i s = Returns s1" and "i < length (heap s)"
  shows "heap s1 ! i = (heap s ! i)\<lparr>process := Some (fresh_popen env s),
            u_stdout_thread := Alive, u_stderr_thread := Alive\<rparr>"
    and "u_stdout_thread (heap s ! i) = NotStarted"
    and "length (heap s1) = length (heap s)"
  using assms
  by (auto simp: u_run_head_def Popen_def Let_def fresh_popen_def thread_start_def
      split: sum.splits if_splits)


lemma evolves_spawned_nth:
  assumes "evolves s s'" and "k < length (spawned s)"
  shows "spawned s' ! k = spawned s ! k"
  using assms by (auto simp: evolves_def nth_append)

lemma u_run_spawned:
  assumes "i < length (heap s)"
  shows "spawned (state_of (u_run env cur i s)) ! length (spawned s) = spawn_entry i s"
proof -
  let ?h = "u_run_head env i s"
  have h: "spawned (state_of ?h) ! length (spawned s) = spawn_entry i s"
    and l: "length (spawned s) < length (spawned (state_of ?h))"
    by (simp_all add: u_run_head_spawned)
  show ?thesis
  proof (cases ?h)
    case (Returns s1)
    have "evolves s1 (state_of (u_run_rest env cur i s1))" by (rule u_run_rest_evolves)
    with h l Returns
    have "spawned (state_of (u_run_rest env cur i s1)) ! length (spawned s) = spawn_entry i s"
      using evolves_spawned_nth by fastforce
    with assms Returns show ?thesis by (simp add: u_run_unfold)
  next
    case (Raises e s1)
    with assms h show ?thesis by (simp add: u_run_unfold)
  next
    case (Hangs s1)
    with assms h show ?thesis by (simp add: u_run_unfold)
  qed
qed

lemma str_join_Cons: "xs \<noteq> [] \<Longrightarrow> str_join sep (x # xs) = x @ sep @ str_join sep xs"
  by (cases xs) simp_all

lemma str_join_split_word:
  "str_join '' '' (xs @ (u @ '' '' @ v) # ys) = str_join '' '' (xs @ u # v # ys)"
proof (induction xs)
  case Nil
  show ?case by (cases ys) simp_all
next
  case (Cons x xs)
  then show ?case by (simp add: str_join_Cons)
qed

subsection \<open>The stdin of a node\<close>

lemma drain_step_process [simp]: "process (drain_step n e) = process n"
  by (cases e; cases "fst e") (auto simp: u_stdout_reader_step_def u_stderr_reader_step_def)

lemma foldl_drain_process [simp]: "process (foldl drain_step n es) = process n"
  by (induction es arbitrary: n) simp_all

lemma finalize_process [simp]: "process (finalize n) = process n"
  by (simp add: finalize_def Let_def)

lemma stdin_of_upd:
  "i < length (heap s) \<Longrightarrow>
   stdin_of i (upd i f s) = (case process (f (heap s ! i)) of None \<Rightarrow> [] | Some p \<Rightarrow> stdin_log p)"
  by (simp add: stdin_of_def)

lemma stdin_of_kill:
  assumes "i < length (heap s)"
  shows "stdin_of i (state_of (u_kill_stream_threads env i s)) = stdin_of i s"
  using assms
  by (auto simp: u_kill_stream_threads_def Let_def stdin_of_def split: option.splits)

lemma process_kill:
  assumes "i < length (heap s)" and "process (heap s ! i) \<noteq> None"
  shows "process (heap (state_of (u_kill_stream_threads env i s)) ! i) \<noteq> None"
  using assms
  by (auto simp: u_kill_stream_threads_def Let_def split: option.splits)

lemma state_of_u_run_tail:
  "state_of (u_run_tail env i pin s) =
     (case u_kill_stream_threads env i (upd i (write_stdin pin) s) of
        Returns s1 \<Rightarrow> upd i finalize s1 | Raises e s1 \<Rightarrow> s1 | Hangs s1 \<Rightarrow> s1)"
  by (simp add: u_run_tail_def split: outcome.splits)

lemma length_heap_kill [simp]:
  "length (heap (state_of (u_kill_stream_threads env i s))) = length (heap s)"
  using touches_kill_stream_threads [of i s env] by (simp add: touches_def)

lemma stdin_of_tail:
  assumes "i < length (heap s)" and "process (heap s ! i) \<noteq> None"
  shows "stdin_of i (state_of (u_run_tail env i pin s)) = stdin_of i s @ writes pin"
    and "process (heap (state_of (u_run_tail env i pin s)) ! i) \<noteq> None"
proof -
  let ?s1 = "upd i (write_stdin pin) s"
  let ?k = "u_kill_stream_threads env i ?s1"
  have w: "stdin_of i ?s1 = stdin_of i s @ writes pin"
    using assms by (auto simp: stdin_of_def write_stdin_def writes_def split: option.splits)
  have p: "process (heap ?s1 ! i) \<noteq> None"
    using assms by (auto simp: write_stdin_def split: option.splits)
  have k: "stdin_of i (state_of ?k) = stdin_of i s @ writes pin"
    using stdin_of_kill [of i ?s1 env] assms w by simp
  have pk: "process (heap (state_of ?k) ! i) \<noteq> None"
    using process_kill [of i ?s1 env] assms p by simp
  have l: "i < length (heap (state_of ?k))" using assms by simp
  show "stdin_of i (state_of (u_run_tail env i pin s)) = stdin_of i s @ writes pin"
    using k l by (cases ?k) (simp_all add: state_of_u_run_tail stdin_of_def)
  show "process (heap (state_of (u_run_tail env i pin s)) ! i) \<noteq> None"
    using pk l by (cases ?k) (simp_all add: state_of_u_run_tail)
qed

lemma stdin_of_finish:
  assumes "i < length (heap s)"
  shows "stdin_of i (state_of (finish env cur i s)) = stdin_of i s"
  using stdin_of_kill [OF assms, of env]
  by (cases "u_kill_stream_threads env i s") (simp_all add: finish_def)

lemma process_finish:
  assumes "i < length (heap s)" and "process (heap s ! i) \<noteq> None"
  shows "process (heap (state_of (finish env cur i s)) ! i) \<noteq> None"
proof (cases "thread (heap s ! i) = Alive")
  case True
  with process_kill [OF assms, of env] show ?thesis
    by (cases "u_kill_stream_threads env i s") (simp_all add: finish_def)
next
  case False
  with assms(2) show ?thesis by (simp add: finish_def)
qed

lemma u_run_head_pipe_in:
  "pipe_in (heap (state_of (u_run_head env i s)) ! i) = pipe_in (heap s ! i)"
  using touches_u_run_head [of i s env] by (simp add: touches_def local_step_def)

lemma length_heap_u_run_head [simp]:
  "length (heap (state_of (u_run_head env i s))) = length (heap s)"
  using touches_u_run_head [of i s env] by (simp add: touches_def)

lemma u_run_head_stdin:
  "i < length (heap s) \<Longrightarrow> stdin_of i (state_of (u_run_head env i s)) = []"
  by (simp add: stdin_of_def u_run_head_process fresh_popen_def)

lemma u_run_no_pipe:
  assumes "i < length (heap s)" and "pipe_in (heap s ! i) = NoPipe"
  shows "stdin_of i (state_of (u_run env cur i s)) = []"
    and "process (heap (state_of (u_run env cur i s)) ! i) \<noteq> None"
proof -
  let ?h = "u_run_head env i s"
  have a: "stdin_of i (state_of ?h) = []" and b: "process (heap (state_of ?h) ! i) \<noteq> None"
    and c: "pipe_in (heap (state_of ?h) ! i) = NoPipe" and d: "i < length (heap (state_of ?h))"
    using assms by (simp_all add: u_run_head_stdin u_run_head_process u_run_head_pipe_in)
  show "stdin_of i (state_of (u_run env cur i s)) = []"
    using assms a b c d stdin_of_tail(1) [of i "state_of ?h" env None]
    by (cases ?h) (simp_all add: u_run_unfold u_run_rest_def writes_def)
  show "process (heap (state_of (u_run env cur i s)) ! i) \<noteq> None"
    using assms a b c d stdin_of_tail(2) [of i "state_of ?h" env None]
    by (cases ?h) (simp_all add: u_run_unfold u_run_rest_def)
qed

lemma run_sync_unfold:
  assumes "i < length (heap s)" and "\<not> concurrent (heap s ! i)"
  shows "run env cur i s =
     (case u_run env cur i (upd i (\<lambda>n. n\<lparr>has_run := True\<rparr>) s) of
        Returns s2 \<Rightarrow> finish env cur i s2
      | Raises e s2 \<Rightarrow> Raises e s2
      | Hangs s2 \<Rightarrow> Hangs s2)"
  using assms by (simp add: run.simps [of env cur i s] Let_def)

lemma length_heap_u_run [simp]:
  "length (heap (state_of (u_run env cur i s))) = length (heap s)"
  using u_run_evolves [of s env cur i] by (simp add: evolves_def)

lemma run_sync_no_pipe:
  assumes "i < length (heap s)" and "pipe_in (heap s ! i) = NoPipe"
    and "\<not> concurrent (heap s ! i)"
  shows "stdin_of i (state_of (run env cur i s)) = []"
    and "process (heap (state_of (run env cur i s)) ! i) \<noteq> None"
proof -
  let ?s1 = "upd i (\<lambda>n. n\<lparr>has_run := True\<rparr>) s"
  let ?u = "u_run env cur i ?s1"
  have a: "stdin_of i (state_of ?u) = []" and b: "process (heap (state_of ?u) ! i) \<noteq> None"
    using assms u_run_no_pipe [of i ?s1 env cur] by simp_all
  have l: "i < length (heap (state_of ?u))" using assms by simp
  show "stdin_of i (state_of (run env cur i s)) = []"
    using a l stdin_of_finish [of i "state_of ?u" env cur]
    by (cases ?u) (simp_all add: run_sync_unfold [OF assms(1,3)])
  show "process (heap (state_of (run env cur i s)) ! i) \<noteq> None"
    using b l process_finish [of i "state_of ?u" env cur]
    by (cases ?u) (simp_all add: run_sync_unfold [OF assms(1,3)])
qed

subsection \<open>Running a node a second time\<close>

lemma evolves_node:
  "evolves s s' \<Longrightarrow> node_evolves (heap s ! k) (heap s' ! k)"
  by (simp add: evolves_def)








subsection \<open>The end of \<^verbatim>\<open>_run\<close>\<close>

lemma drain_step_threads [simp]:
  "u_stdout_thread (drain_step n e) = u_stdout_thread n"
  "u_stderr_thread (drain_step n e) = u_stderr_thread n"
  by (cases e; cases "fst e"; auto simp: u_stdout_reader_step_def u_stderr_reader_step_def)+

lemma foldl_drain_threads [simp]:
  "u_stdout_thread (foldl drain_step n es) = u_stdout_thread n"
  "u_stderr_thread (foldl drain_step n es) = u_stderr_thread n"
  by (induction es arbitrary: n) simp_all

lemma filter_drainer_alive:
  "u_stdout_thread n = Alive \<Longrightarrow> u_stderr_thread n = Alive \<Longrightarrow> filter (drainer_alive n) es = es"
  by (induction es) (auto simp: drainer_alive_def split: stream.splits)



subsection \<open>A synchronous run, from its start to its end\<close>

lemma same_node_upstream:
  assumes "has_run (heap s ! i)" and "thread (heap s ! i) \<noteq> Alive"
    and "\<not> has_run (heap s ! j)"
  shows "same_node i s (state_of (run env cur j s))"
proof (rule run_respects [OF engine_rel_settled])
  from assms show "settled i j s" by (auto simp: settled_def)
qed

lemma same_node_read_selected:
  assumes "thread (heap s ! i) \<noteq> Alive"
  shows "same_node i s (state_of_pair (read_selected env cur ty j s))"
proof (cases "j = i")
  case True
  with assms show ?thesis by (simp add: read_selected_not_alive same_node_def)
next
  case False
  with touches_read_selected [of j s env cur ty] show ?thesis
    by (simp add: touches_same_node)
qed

lemma u_run_rest_Returns:
  assumes r: "u_run_rest env cur i s = Returns s2"
    and h: "has_run (heap s ! i)" and t: "thread (heap s ! i) \<noteq> Alive"
  shows "\<exists>pin s3. same_node i s s3 \<and> u_run_tail env i pin s3 = Returns s2 \<and> fed env cur i s pin"
proof (cases "pipe_in (heap s ! i)")
  case NoPipe
  with r have "u_run_tail env i None s = Returns s2" by (simp add: u_run_rest_def)
  moreover have "fed env cur i s None" using NoPipe by (simp add: fed_def)
  moreover have "same_node i s s" by (simp add: same_node_def)
  ultimately show ?thesis by blast
next
  case (Payload b)
  with r have "u_run_tail env i (Some b) s = Returns s2" by (simp add: u_run_rest_def)
  moreover have "fed env cur i s (Some b)" using Payload by (simp add: fed_def)
  moreover have "same_node i s s" by (simp add: same_node_def)
  ultimately show ?thesis by blast
next
  case (Upstream j)
  define up where "up = (if \<not> has_run (heap s ! j) then run env cur j s else Returns s)"
  from r Upstream have jlt: "j < length (heap s)"
    by (auto simp: u_run_rest_def split: if_splits)
  from r Upstream jlt obtain sa pin s3 where
    a: "up = Returns sa"
    and b: "read_selected env cur (pipe_in_type (heap sa ! i)) j sa = Returns (pin, s3)"
    and c: "u_run_tail env i pin s3 = Returns s2"
    by (auto simp: u_run_rest_def up_def split: outcome.splits prod.splits)
  have 1: "same_node i s sa"
  proof (cases "has_run (heap s ! j)")
    case True
    with a show ?thesis by (simp add: up_def same_node_def)
  next
    case False
    with a same_node_upstream [OF h t False, of env cur] show ?thesis by (simp add: up_def)
  qed
  then have ta: "thread (heap sa ! i) \<noteq> Alive" using t by (simp add: same_node_def)
  from same_node_read_selected [OF ta, of env cur "pipe_in_type (heap sa ! i)" j] b
  have 2: "same_node i sa s3" by simp
  from 1 2 have 3: "same_node i s s3" by (simp add: same_node_def)
  from 1 b have "read_selected env cur (pipe_in_type (heap s ! i)) j sa = Returns (pin, s3)"
    by (simp add: same_node_def)
  with Upstream have "fed env cur i s pin" unfolding fed_def by auto
  with 3 c show ?thesis by blast
qed

lemma finish_Returns: "finish env cur i s = Returns s' \<Longrightarrow> s' = s"
  by (auto simp: finish_def split: if_splits outcome.splits)

lemma run_sync_tail:
  assumes i: "i < length (heap s)" and c: "\<not> concurrent (heap s ! i)"
    and t: "thread (heap s ! i) \<noteq> Alive" and r: "run env cur i s = Returns s'"
  shows "\<exists>pin s3. i < length (heap s3) \<and>
           heap s3 ! i = (heap s ! i)\<lparr>has_run := True, process := Some (fresh_popen env s),
             u_stdout_thread := Alive, u_stderr_thread := Alive\<rparr> \<and>
           u_run_tail env i pin s3 = Returns s' \<and> fed env cur i s pin"
proof -
  let ?s0 = "upd i (\<lambda>n. n\<lparr>has_run := True\<rparr>) s"
  from r obtain s2 where u: "u_run env cur i ?s0 = Returns s2"
    and f: "finish env cur i s2 = Returns s'"
    by (auto simp: run_sync_unfold [OF i c] split: outcome.splits)
  from f have s': "s' = s2" by (rule finish_Returns)
  from u i obtain sh where h: "u_run_head env i ?s0 = Returns sh"
    and rest: "u_run_rest env cur i sh = Returns s2"
    by (auto simp: u_run_unfold split: outcome.splits)
  have i0: "i < length (heap ?s0)" using i by simp
  note hd = u_run_head_Returns [OF h i0]
  have nh: "heap sh ! i = (heap s ! i)\<lparr>has_run := True, process := Some (fresh_popen env s),
      u_stdout_thread := Alive, u_stderr_thread := Alive\<rparr>"
    using hd(1) i by (simp add: fresh_popen_def)
  have hh: "has_run (heap sh ! i)" and th: "thread (heap sh ! i) \<noteq> Alive"
    using nh t by simp_all
  from u_run_rest_Returns [OF rest hh th] obtain pin s3 where
    sn: "same_node i sh s3" and tl: "u_run_tail env i pin s3 = Returns s2"
    and fd: "fed env cur i sh pin"
    by blast
  have n3: "heap s3 ! i = heap sh ! i" and l3: "i < length (heap s3)"
    using sn hd(3) i by (simp_all add: same_node_def)
  have "fed env cur i s pin"
  proof -
    have e: "pipe_in (heap sh ! i) = pipe_in (heap s ! i)"
      "pipe_in_type (heap sh ! i) = pipe_in_type (heap s ! i)"
      by (simp_all add: nh)
    from fd show ?thesis unfolding fed_def e .
  qed
  with l3 n3 nh tl s' show ?thesis by auto
qed


subsection \<open>The return code\<close>


subsection \<open>What a synchronous run captures\<close>

lemma drain_step_buffers:
  "u_all_buffer (drain_step n e) = u_all_buffer n @ snd e"
  "u_stdout_buffer (drain_step n e) = u_stdout_buffer n @ (if fst e = StdOut then snd e else [])"
  "u_stderr_buffer (drain_step n e) = u_stderr_buffer n @ (if fst e = StdErr then snd e else [])"
  "u_stdout (drain_step n e) = u_stdout n"
  by (cases e; cases "fst e"; auto simp: u_stdout_reader_step_def u_stderr_reader_step_def)+

lemma foldl_drain_buffers:
  "u_all_buffer (foldl drain_step n es) = u_all_buffer n @ concat (map snd es)"
  "u_stdout_buffer (foldl drain_step n es) = u_stdout_buffer n @ chunks_of StdOut es"
  "u_stderr_buffer (foldl drain_step n es) = u_stderr_buffer n @ chunks_of StdErr es"
  "u_stdout (foldl drain_step n es) = u_stdout n"
  by (induction es arbitrary: n) (simp_all add: drain_step_buffers chunks_of_def)

lemma write_stdin_buffers [simp]:
  "u_all_buffer (write_stdin pin n) = u_all_buffer n"
  "u_stdout_buffer (write_stdin pin n) = u_stdout_buffer n"
  "u_stdout (write_stdin pin n) = u_stdout n"
  by (simp_all add: write_stdin_def split: option.splits)

lemma kill_Returns_node:
  assumes "u_kill_stream_threads env i s = Returns s'" and "i < length (heap s)"
    and "u_stdout_thread (heap s ! i) = Alive" and "u_stderr_thread (heap s ! i) = Alive"
    and "process (heap s ! i) = Some p"
  shows "\<exists>q. heap s' ! i = (foldl drain_step (heap s ! i) (drained (env (proc_no p))))
           \<lparr>process := q, u_stdout_thread := Stopped, u_stderr_thread := Stopped\<rparr>"
  using assms
  by (auto simp: u_kill_stream_threads_def Let_def filter_drainer_alive join_thread_def
      split: option.splits)

lemma u_run_tail_captures:
  assumes "u_run_tail env i pin s = Returns s'" and "i < length (heap s)"
    and "u_stdout_thread (heap s ! i) = Alive" and "u_stderr_thread (heap s ! i) = Alive"
    and "process (heap s ! i) = Some p"
  shows "u_all (heap s' ! i)
           = Some (u_all_buffer (heap s ! i) @ concat (map snd (drained (env (proc_no p)))))"
    and "u_stdout (heap s ! i) = None \<Longrightarrow>
         u_stdout (heap s' ! i)
           = Some (u_stdout_buffer (heap s ! i) @ chunks_of StdOut (drained (env (proc_no p))))"
proof -
  let ?s1 = "upd i (write_stdin pin) s"
  from assms(1) obtain s2 where k: "u_kill_stream_threads env i ?s1 = Returns s2"
    and s': "s' = upd i finalize s2"
    by (auto simp: u_run_tail_def split: outcome.splits)
  have l: "i < length (heap ?s1)" using assms(2) by simp
  have t: "u_stdout_thread (heap ?s1 ! i) = Alive" "u_stderr_thread (heap ?s1 ! i) = Alive"
    using assms(2,3,4) by (simp_all add: write_stdin_def split: option.splits)
  obtain p' where w: "process (heap ?s1 ! i) = Some p'" and pn: "proc_no p' = proc_no p"
    using assms(2,5) by (cases pin) (simp_all add: write_stdin_def)
  from kill_Returns_node [OF k l t w] obtain q where
    n2: "heap s2 ! i = (foldl drain_step (heap ?s1 ! i) (drained (env (proc_no p'))))
           \<lparr>process := q, u_stdout_thread := Stopped, u_stderr_thread := Stopped\<rparr>"
    by blast
  have l2: "i < length (heap s2)"
    using length_heap_kill [of env i ?s1] k l by simp
  show "u_all (heap s' ! i)
           = Some (u_all_buffer (heap s ! i) @ concat (map snd (drained (env (proc_no p)))))"
    using l2 assms(2) by (simp add: s' n2 pn finalize_def Let_def foldl_drain_buffers)
  show "u_stdout (heap s' ! i)
           = Some (u_stdout_buffer (heap s ! i) @ chunks_of StdOut (drained (env (proc_no p))))"
    if "u_stdout (heap s ! i) = None"
    using l2 assms(2) that by (simp add: s' n2 pn finalize_def Let_def foldl_drain_buffers)
qed

text \<open>
  The general form of what C1 says of \<open>all\<close> and \<open>stdout\<close>: after a synchronous run that
  has returned, the finalised combined bytes are the chunks of the process of this run in
  the order of discovery, and the finalised stdout bytes are its stdout chunks.
\<close>

lemma run_sync_captures:
  assumes i: "i < length (heap s)" and c: "\<not> concurrent (heap s ! i)"
    and t: "thread (heap s ! i) \<noteq> Alive" and r: "run env cur i s = Returns s'"
  shows "u_all (heap s' ! i)
           = Some (u_all_buffer (heap s ! i)
                     @ concat (map snd (drained (env (length (spawned s))))))"
    and "u_stdout (heap s ! i) = None \<Longrightarrow>
         u_stdout (heap s' ! i)
           = Some (u_stdout_buffer (heap s ! i)
                     @ chunks_of StdOut (drained (env (length (spawned s)))))"
proof -
  from run_sync_tail [OF i c t r] obtain pin s3 where l3: "i < length (heap s3)"
    and n3: "heap s3 ! i = (heap s ! i)\<lparr>has_run := True, process := Some (fresh_popen env s),
             u_stdout_thread := Alive, u_stderr_thread := Alive\<rparr>"
    and tl: "u_run_tail env i pin s3 = Returns s'"
    by blast
  have a: "u_stdout_thread (heap s3 ! i) = Alive" "u_stderr_thread (heap s3 ! i) = Alive"
    "process (heap s3 ! i) = Some (fresh_popen env s)"
    using n3 by simp_all
  from u_run_tail_captures(1) [OF tl l3 a]
  show "u_all (heap s' ! i)
           = Some (u_all_buffer (heap s ! i)
                     @ concat (map snd (drained (env (length (spawned s))))))"
    by (simp add: n3 fresh_popen_def)
  assume "u_stdout (heap s ! i) = None"
  then have "u_stdout (heap s3 ! i) = None" by (simp add: n3)
  from u_run_tail_captures(2) [OF tl l3 a this]
  show "u_stdout (heap s' ! i)
           = Some (u_stdout_buffer (heap s ! i)
                     @ chunks_of StdOut (drained (env (length (spawned s)))))"
    by (simp add: n3 fresh_popen_def)
qed

text \<open>
  The general form of the defect of C1: no run changes the finalised stderr of any node,
  so the \<open>stderr\<close> property of a node created by \<open>init_CLITool\<close> never returns bytes.
\<close>

lemma run_keeps_u_stderr:
  "u_stderr (heap (state_of (run env cur i s)) ! k) = u_stderr (heap s ! k)"
  using evolves_node [OF run_evolves [of s env cur i], of k] by (simp add: node_evolves_def)

lemma stderr_keeps_None:
  assumes "u_stderr (heap s ! k) = None" and "stderr env cur k s = Returns (v, s')"
  shows "v = None"
proof -
  from assms obtain s1 where f: "finish env cur k s = Returns s1" and v: "v = u_stderr (heap s1 ! k)"
    by (auto simp: stderr_def cached_or_finish_def split: outcome.splits)
  from f have "s1 = s" by (rule finish_Returns)
  with v assms(1) show ?thesis by simp
qed

lemma stderr_after_run_None:
  assumes "u_stderr (heap s ! k) = None"
    and "stderr env' cur' k (state_of (run env cur i s)) = Returns (v, s')"
  shows "v = None"
  using stderr_keeps_None [OF _ assms(2)] assms(1) by (simp add: run_keeps_u_stderr)

text \<open>
  The general form of the defect of C2: the bytes that reach stdin are the input without
  its carriage returns and line feeds.
\<close>

lemma written_splitlines_from:
  "written (map Write (splitlines_from cur bs)) = cur @ filter (\<lambda>c. c \<noteq> LF \<and> c \<noteq> CR) bs"
  by (induction cur bs rule: splitlines_from.induct) auto

lemma written_writes:
  "written (writes (Some bs)) = filter (\<lambda>c. c \<noteq> LF \<and> c \<noteq> CR) bs"
  by (simp add: writes_def splitlines_def written_splitlines_from)

subsection \<open>The pipe operators\<close>

text \<open>
  What holds of the three operators in general: each raises a \<open>TypeError\<close> on a right
  operand that is not a node; on a node each returns that node with its pipe source set
  to the left node; \<^verbatim>\<open>@\<close> and \<^verbatim>\<open>%\<close> also set the selector.
\<close>

lemma pipe_operators_not_a_node:
  "\<exists>msg. dunder_or a (Value v) s = Raises (TypeError msg) s"
  "\<exists>msg. dunder_matmul a (Value v) s = Raises (TypeError msg) s"
  "\<exists>msg. dunder_mod a (Value v) s = Raises (TypeError msg) s"
  by (simp_all add: dunder_or_def dunder_matmul_def dunder_mod_def)

lemma pipe_operators_node:
  assumes "b < length (heap s)"
  shows "\<exists>s'. dunder_or a (Tool b) s = Returns (b, s') \<and> pipe_in (heap s' ! b) = Upstream a"
    and "\<exists>s'. dunder_matmul a (Tool b) s = Returns (b, s') \<and> pipe_in (heap s' ! b) = Upstream a
           \<and> pipe_in_type (heap s' ! b) = PipeERR"
    and "\<exists>s'. dunder_mod a (Tool b) s = Returns (b, s') \<and> pipe_in (heap s' ! b) = Upstream a
           \<and> pipe_in_type (heap s' ! b) = PipeALL"
  using assms by (simp_all add: dunder_or_def dunder_matmul_def dunder_mod_def)

section \<open>The claims\<close>

text \<open>
  C1. The claim fails on the code at its last part. For the node \<^verbatim>\<open>SHELL.make("all")\<close>,
  without pipe source, whose process writes \<^verbatim>\<open>out\<close> to stdout and then \<^verbatim>\<open>err\<close> to
  stderr: after the synchronous run, \<^verbatim>\<open>all\<close> is the concatenation of the two chunks in
  the order of discovery and \<^verbatim>\<open>stdout\<close> is the stdout chunk, but \<^verbatim>\<open>stderr\<close> is
  \<^verbatim>\<open>None\<close>, although the stderr drainer has collected \<^verbatim>\<open>err\<close>: the second branch of
  the finalisation assigns the stdout buffer a second time.
  (For every synchronous run, \<open>run_sync_captures\<close> gives the two parts that hold and
  \<open>stderr_after_run_None\<close> the part that fails.)
\<close>

theorem C1_stderr_never_finalized:
  "run env_out_err None 0 make_node = Returns make_done \<and>
   all_prop env_out_err None 0 make_done = Returns (Some ''out\<newline>err\<newline>'', make_done) \<and>
   stdout env_out_err None 0 make_done = Returns (Some ''out\<newline>'', make_done) \<and>
   u_stderr_buffer (heap make_done ! 0) = ''err\<newline>'' \<and>
   stderr env_out_err None 0 make_done = Returns (None, make_done)"
  unfolding make_done_def run_make_node
  by (simp add: all_prop_def stdout_def stderr_def cached_or_finish_def finish_def)

text \<open>
  C2. The claim fails on the code. In \<^verbatim>\<open>SHELL.seq(1, 2) | SHELL.cat()\<close> the finalised
  stdout of \<^verbatim>\<open>seq\<close> is the four bytes of two terminated lines; the stdin of \<^verbatim>\<open>cat\<close>
  receives one write per line without its terminator, two bytes in all:
  \<^verbatim>\<open>splitlines()\<close> drops the terminators and \<^verbatim>\<open>writelines\<close> adds none.
  (For every input, \<open>written_writes\<close> gives the bytes that are written.)
\<close>

theorem C2_line_terminators_lost:
  "run env_seq_cat None 1 seq_cat = Returns seq_cat_done \<and>
   stdout env_seq_cat None 0 seq_cat_done = Returns (Some ''1\<newline>2\<newline>'', seq_cat_done) \<and>
   stdin_of 1 seq_cat_done = [Write ''1'', Write ''2''] \<and>
   written (stdin_of 1 seq_cat_done) = ''12''"
  unfolding seq_cat_done_def run_seq_cat
  by (simp add: stdout_def cached_or_finish_def stdin_of_def)




text \<open>
  C4. As stated the claim fails: the code never closes the stdin of a process. For the
  node \<^verbatim>\<open>SHELL.make("all")\<close>, which has no pipe source, the synchronous run returns
  and the stdin of its process has not been closed.
\<close>

theorem C4_stdin_not_closed:
  "pipe_in (heap make_node ! 0) = NoPipe \<and>
   run env_out_err None 0 make_node = Returns make_done \<and>
   Close \<notin> set (stdin_of 0 make_done)"
  unfolding make_done_def run_make_node
  by (simp add: stdin_of_def make_node_def Shell_getattr_def empty_state_def dunder_call_def
      upd_def init_CLITool_def)

text \<open>
  C4, amended. For every node whose pipe source is absent, \<^verbatim>\<open>_run\<close>, and so a
  synchronous \<^verbatim>\<open>run\<close>, spawns a process and does nothing to its stdin: no data is
  written, and the stream is not closed.
\<close>

theorem C4_no_pipe_stdin_untouched:
  assumes "i < length (heap s)" and "pipe_in (heap s ! i) = NoPipe"
  shows "(\<exists>p. process (heap (state_of (u_run env cur i s)) ! i) = Some p \<and> stdin_log p = []) \<and>
         (\<not> concurrent (heap s ! i) \<longrightarrow>
            (\<exists>p. process (heap (state_of (run env cur i s)) ! i) = Some p \<and> stdin_log p = []))"
  using u_run_no_pipe [OF assms, of env cur] run_sync_no_pipe [OF assms, of env cur]
  by (auto simp: stdin_of_def split: option.splits)

theorem C4_no_pipe_stdin_untouched_witness:
  "(\<exists>p. process (heap (state_of (u_run env_out_err None 0 make_node)) ! 0) = Some p
        \<and> stdin_log p = []) \<and>
   (\<exists>p. process (heap make_done ! 0) = Some p \<and> stdin_log p = [])"
  using C4_no_pipe_stdin_untouched [of 0 make_node env_out_err None]
  by (simp add: make_done_def make_node_def Shell_getattr_def empty_state_def dunder_call_def
      upd_def init_CLITool_def)

text \<open>
  C5. The claim fails on the code for the stdout operator. After \<^verbatim>\<open>x @ b\<close> the
  selector of \<^verbatim>\<open>b\<close> is stderr; \<^verbatim>\<open>a | b\<close> then returns \<^verbatim>\<open>b\<close> with pipe source
  \<^verbatim>\<open>a\<close>, and the selector is still stderr, not stdout: \<^verbatim>\<open>__or__\<close> does not assign
  the selector, as \<^verbatim>\<open>__matmul__\<close> and \<^verbatim>\<open>__mod__\<close> do.
  (The parts of the claim that hold are \<open>pipe_operators_not_a_node\<close> and
  \<open>pipe_operators_node\<close>.)
\<close>

theorem C5_or_keeps_old_selector:
  "dunder_matmul 0 (Tool 2) three_nodes = Returns (2, state_of_pair (dunder_matmul 0 (Tool 2) three_nodes)) \<and>
   dunder_or 1 (Tool 2) (state_of_pair (dunder_matmul 0 (Tool 2) three_nodes))
     = Returns (2, state_of_pair
          (dunder_or 1 (Tool 2) (state_of_pair (dunder_matmul 0 (Tool 2) three_nodes)))) \<and>
   pipe_in (heap (state_of_pair
      (dunder_or 1 (Tool 2) (state_of_pair (dunder_matmul 0 (Tool 2) three_nodes)))) ! 2)
     = Upstream 1 \<and>
   pipe_in_type (heap (state_of_pair
      (dunder_or 1 (Tool 2) (state_of_pair (dunder_matmul 0 (Tool 2) three_nodes)))) ! 2)
     = PipeERR"
  by (simp add: three_nodes_def dunder_matmul_def dunder_or_def upd_def init_CLITool_def)

text \<open>
  C6. A node is running when it has a process whose exit the operating system has not
  reported. \<open>kill\<close> on a running node delivers \<open>SIGTERM\<close> to the pid of its
  process and returns. \<open>kill\<close> on a node that is not running, because it was never
  started or because its process has exited, raises the runtime error whose message names
  the pid of the node, and delivers no signal.
\<close>

theorem C6_kill:
  assumes "i < length (heap s)"
  shows "(fst (running now i s) \<longleftrightarrow>
            (\<exists>p. process (heap s ! i) = Some p \<and> returncode p = None \<and> now (pid p) = None)) \<and>
         (fst (running now i s) \<longrightarrow>
            (\<exists>p. pid_prop i s = Some p \<and>
                 kill now i s =
                   Returns ((snd (running now i s))\<lparr>signals := signals s @ [(p, SIGTERM)]\<rparr>))) \<and>
         (\<not> fst (running now i s) \<longrightarrow>
            kill now i s =
              Raises (RuntimeError
                (''Tried to kill process that doesnt exist with pid:(''
                   @ pid_repr (pid_prop i s) @ '').'')) (snd (running now i s)) \<and>
            signals (state_of (kill now i s)) = signals s)"
proof (intro conjI impI)
  show "fst (running now i s) \<longleftrightarrow>
     (\<exists>p. process (heap s ! i) = Some p \<and> returncode p = None \<and> now (pid p) = None)"
    by (rule running_iff)
next
  assume r: "fst (running now i s)"
  then obtain p where p: "process (heap s ! i) = Some p"
    by (auto simp: running_iff)
  then have "pid_prop i s = Some (pid p)" by (simp add: pid_prop_def)
  moreover from r this running_pid [OF assms, of now]
  have "kill now i s =
      Returns ((snd (running now i s))\<lparr>signals := signals s @ [(pid p, SIGTERM)]\<rparr>)"
    by (simp add: kill_unfold)
  ultimately show "\<exists>p. pid_prop i s = Some p \<and>
      kill now i s = Returns ((snd (running now i s))\<lparr>signals := signals s @ [(p, SIGTERM)]\<rparr>)"
    by blast
next
  assume r: "\<not> fst (running now i s)"
  with running_pid [OF assms, of now]
  show k: "kill now i s =
      Raises (RuntimeError
        (''Tried to kill process that doesnt exist with pid:(''
           @ pid_repr (pid_prop i s) @ '').'')) (snd (running now i s))"
    by (simp add: kill_unfold)
  show "signals (state_of (kill now i s)) = signals s"
    by (simp add: k)
qed

theorem C6_kill_witness:
  "kill (\<lambda>p. None) 0 (spawned_node 4242 None) =
     Returns ((spawned_node 4242 None)\<lparr>signals := [(4242, SIGTERM)]\<rparr>) \<and>
   kill (\<lambda>p. Some 0) 0 (spawned_node 4242 None) =
     Raises (RuntimeError ''Tried to kill process that doesnt exist with pid:(4242).'')
       (spawned_node 4242 (Some 0)) \<and>
   kill (\<lambda>p. None) 0 (queued [] []) =
     Raises (RuntimeError ''Tried to kill process that doesnt exist with pid:(None).'')
       (queued [] [])"
  using C6_kill [of 0 "spawned_node 4242 None" "\<lambda>p. None"]
    C6_kill [of 0 "spawned_node 4242 None" "\<lambda>p. Some 0"]
    C6_kill [of 0 "queued [] []" "\<lambda>p. None"]
  by (simp add: spawned_node_def queued_def init_CLITool_def running_def poll_def pid_prop_def
      pid_repr_def upd_def digit_char_def)

text \<open>
  C7. An iteration step of a node signals the end of the iteration exactly when its stdout
  queue and its stderr queue are both empty at the check. Otherwise it returns the pair
  of the first stdout item (or nothing) and the first stderr item (or nothing), and each
  queue that was not empty has lost exactly that first item; the combined queue is left
  as it was.
\<close>

theorem C7_iteration_step:
  assumes "i < length (heap s)"
  shows "(stream_empty i s \<longrightarrow> dunder_next i s = Raises StopIteration s) \<and>
         (\<not> stream_empty i s \<longrightarrow>
            dunder_next i s = Returns (next_stream_line i s) \<and>
            fst (next_stream_line i s) =
              (case u_stdout_queue (heap s ! i) of [] \<Rightarrow> None | x # xs \<Rightarrow> Some x,
               case u_stderr_queue (heap s ! i) of [] \<Rightarrow> None | y # ys \<Rightarrow> Some y) \<and>
            u_stdout_queue (heap (snd (next_stream_line i s)) ! i)
              = tl (u_stdout_queue (heap s ! i)) \<and>
            u_stderr_queue (heap (snd (next_stream_line i s)) ! i)
              = tl (u_stderr_queue (heap s ! i)) \<and>
            u_all_queue (heap (snd (next_stream_line i s)) ! i) = u_all_queue (heap s ! i))"
  using assms next_stream_line_queues [OF assms]
  by (simp add: dunder_next_def stream_empty_def next_stream_line_fst)

theorem C7_iteration_step_witness:
  "dunder_next 0 (queued [] []) = Raises StopIteration (queued [] []) \<and>
   dunder_next 0 (queued [''a'', ''b''] []) = Returns (next_stream_line 0 (queued [''a'', ''b''] [])) \<and>
   fst (next_stream_line 0 (queued [''a'', ''b''] [])) = (Some ''a'', None) \<and>
   u_stdout_queue (heap (snd (next_stream_line 0 (queued [''a'', ''b''] []))) ! 0) = [''b''] \<and>
   u_stderr_queue (heap (snd (next_stream_line 0 (queued [''a'', ''b''] []))) ! 0) = []"
  using C7_iteration_step [of 0 "queued [] []"] C7_iteration_step [of 0 "queued [''a'', ''b''] []"]
  by (simp add: queued_def stream_empty_def init_CLITool_def)



text \<open>
  C9. Invoking a node sets its argument list to the name followed by \<^verbatim>\<open>str\<close> of every
  argument. \<^verbatim>\<open>_run\<close> hands one \<^verbatim>\<open>Popen\<close> call to the operating system, with the
  shell flag set and, as command, the argument list joined with single spaces; nothing is
  quoted or escaped. So an argument with a space inside gives the same command string as
  the two arguments left and right of the space: the shell sees two words.
\<close>

theorem C9_command_line:
  assumes "i < length (heap s)"
  shows "args (heap (snd (dunder_call i as s)) ! i) = name (heap s ! i) # map py_str as \<and>
         spawned (state_of (u_run env cur i s)) ! length (spawned s)
           = \<lparr>command = str_join '' '' (args (heap s ! i)), shell = True\<rparr> \<and>
         str_join '' '' (nm # map py_str (as @ PyStr (u @ '' '' @ v) # bs))
           = str_join '' '' (nm # map py_str (as @ PyStr u # PyStr v # bs))"
proof (intro conjI)
  show "args (heap (snd (dunder_call i as s)) ! i) = name (heap s ! i) # map py_str as"
    using assms by (simp add: dunder_call_def)
  show "spawned (state_of (u_run env cur i s)) ! length (spawned s)
           = \<lparr>command = str_join '' '' (args (heap s ! i)), shell = True\<rparr>"
    using u_run_spawned [OF assms] by (simp add: spawn_entry_def)
  show "str_join '' '' (nm # map py_str (as @ PyStr (u @ '' '' @ v) # bs))
           = str_join '' '' (nm # map py_str (as @ PyStr u # PyStr v # bs))"
    using str_join_split_word [of "nm # map py_str as" "py_str (PyStr u)" "py_str (PyStr v)" "map py_str bs"]
    by simp
qed

theorem C9_command_line_witness:
  "args (heap grep_one_arg ! 0) = [''grep'', ''a b''] \<and>
   spawned (state_of (u_run env_out_err None 0 grep_one_arg)) ! 0
     = \<lparr>command = ''grep a b'', shell = True\<rparr> \<and>
   spawned (state_of (u_run env_out_err None 0 grep_two_args)) ! 0
     = \<lparr>command = ''grep a b'', shell = True\<rparr>"
  using C9_command_line [of 0 "snd (Shell_getattr ''grep'' empty_state)" "[PyStr ''a b'']"]
    C9_command_line [of 0 grep_one_arg "[]" env_out_err None]
    C9_command_line [of 0 grep_two_args "[]" env_out_err None]
  by (simp add: grep_one_arg_def grep_two_args_def Shell_getattr_def empty_state_def
      dunder_call_def upd_def init_CLITool_def)




end
